theory Spec2Isabelle
  imports
    Main
    "HOL-Library.Sublist"
    "HOL-Library.Char_ord"
    "HOL-Library.List_Lexorder"
    "HOL-Library.Product_Lexorder"
    "HOL-Library.Word"
begin

section \<open>Strings as Python uses them\<close>

text \<open>
  Python strings are modelled as \<^typ>\<open>string\<close>. The methods the program calls are
  \<open>startswith\<close>, \<open>endswith\<close>, \<open>lower\<close>, \<open>split\<close>, \<open>join\<close> and the \<open>in\<close> test.
  A string is the list of the bytes of its UTF-8 form, so that a character of ASCII is
  one element, and the order of two strings is the order Python gives them.
  \<open>lower\<close> maps the ASCII letters \<open>A\<close> .. \<open>Z\<close> (codes 65 .. 90) to \<open>a\<close> .. \<open>z\<close> and
  leaves every other byte alone: it is what \<open>str.lower\<close> does to a string of ASCII
  characters. Where the program lowers a name or a path that may hold other characters
  and the outcome depends on them, \<open>str.lower\<close> is a parameter of the model.
\<close>

definition startswith :: "string \<Rightarrow> string \<Rightarrow> bool" where
  "startswith s pre = prefix pre s"

definition endswith :: "string \<Rightarrow> string \<Rightarrow> bool" where
  "endswith s suf = suffix suf s"

definition lower_char :: "char \<Rightarrow> char" where
  "lower_char c =
     (let n = (of_char c :: nat) in if 65 \<le> n \<and> n \<le> 90 then char_of (n + 32) else c)"

definition lower :: "string \<Rightarrow> string" where
  "lower s = map lower_char s"

text \<open>
  \<open>s.split(c)\<close> for a one-character separator: the pieces between the separators, of
  which there is always at least one (\<open>''.split('/')\<close> is \<open>['']\<close>).
\<close>

fun split :: "char \<Rightarrow> string \<Rightarrow> string list" where
  "split c [] = [[]]"
| "split c (x # xs) =
     (if x = c then [] # split c xs
      else (case split c xs of
              p # ps \<Rightarrow> (x # p) # ps
            | [] \<Rightarrow> [[x]]))"

text \<open>\<open>sep.join(parts)\<close>.\<close>

fun join :: "string \<Rightarrow> string list \<Rightarrow> string" where
  "join sep [] = []"
| "join sep [p] = p"
| "join sep (p # q # ps) = p @ sep @ join sep (q # ps)"

section \<open>contextor/utils.py: the default exclusions\<close>

text \<open>
  \<open>DEFAULT_EXCLUSIONS\<close> is a Python set; the program only ever asks whether some member
  matches, so the order of this list plays no role.
\<close>

definition DEFAULT_EXCLUSIONS :: "string list" where
  "DEFAULT_EXCLUSIONS =
     [''.git/'', ''.conda/'', ''.venv/'', ''venv/'', ''node_modules/'', ''__pycache__/'',
      ''*.pyc'', ''.idea/'', ''.vscode/'', ''dist/'', ''build/'', ''target/'', ''.DS_Store'',
      ''.pytest_cache/'', ''.coverage/'', ''coverage/'', ''tmp/'', ''temp/'', ''.next/'',
      ''.nuxt/'', ''out/'', ''.sass-cache/'', ''__tests__/__snapshots__/'',
      ''.ipynb_checkpoints/'', ''*.lock'']"

text \<open>
  The three branches of the loop body of \<open>should_exclude\<close>, one per kind of pattern.
  \<open>dir_pattern_match\<close> is the branch for a pattern that ends in \<open>/\<close>: equality or
  \<open>startswith\<close>, and then, when the path holds a \<open>/\<close>, the loop over
  \<open>i in range(len(parts))\<close> that compares \<open>'/'.join(parts[:i+1]) + '/'\<close> with the pattern.
\<close>

definition dir_pattern_match :: "string \<Rightarrow> string \<Rightarrow> bool" where
  "dir_pattern_match pattern rel_path_str =
     (rel_path_str = pattern \<or> startswith rel_path_str pattern \<or>
      (CHR ''/'' \<in> set rel_path_str \<and>
       (let parts = split CHR ''/'' rel_path_str in
          list_ex (\<lambda>i. join ''/'' (take (i + 1) parts) @ ''/'' = pattern)
            [0 ..< length parts])))"

definition wildcard_pattern_match :: "string \<Rightarrow> string \<Rightarrow> bool" where
  "wildcard_pattern_match pattern rel_path_str =
     (let pattern_parts = split CHR ''*'' pattern in
        length pattern_parts = 2 \<and>
        startswith rel_path_str (pattern_parts ! 0) \<and>
        endswith rel_path_str (pattern_parts ! 1))"

definition default_pattern_match :: "string \<Rightarrow> string \<Rightarrow> bool" where
  "default_pattern_match pattern rel_path_str =
     (if endswith pattern ''/'' then dir_pattern_match pattern rel_path_str
      else if CHR ''*'' \<in> set pattern then wildcard_pattern_match pattern rel_path_str
      else rel_path_str = pattern)"

definition default_excluded :: "string \<Rightarrow> bool" where
  "default_excluded rel_path_str =
     list_ex (\<lambda>pattern. default_pattern_match pattern rel_path_str) DEFAULT_EXCLUSIONS"

text \<open>
  For comparison, the rule for a pattern ending in \<open>/\<close> in the words of the
  specification: the path equals the pattern, or starts with it, or one of the directory
  segments above the last one, followed by \<open>/\<close>, equals the pattern.
\<close>

definition spec_dir_pattern_match :: "string \<Rightarrow> string \<Rightarrow> bool" where
  "spec_dir_pattern_match pattern rel_path_str =
     (rel_path_str = pattern \<or> startswith rel_path_str pattern \<or>
      list_ex (\<lambda>segment. segment @ ''/'' = pattern)
        (butlast (split CHR ''/'' rel_path_str)))"

section \<open>Paths\<close>

text \<open>
  \<open>os.path.join(a, b)\<close> on strings (the POSIX version): an absolute \<open>b\<close> replaces \<open>a\<close>,
  and the separator is added unless \<open>a\<close> is empty or already ends in one.
\<close>

definition os_path_join :: "string \<Rightarrow> string \<Rightarrow> string" where
  "os_path_join a b =
     (if startswith b ''/'' then b
      else if a = [] \<or> endswith a ''/'' then a @ b
      else a @ ''/'' @ b)"

text \<open>
  A \<open>pathlib\<close> path is the list of its parts. \<open>Path(s)\<close> splits the string at the
  separators and drops the empty pieces and the dots; an absolute path has its root as
  the first part, which is \<open>//\<close> when the string begins with exactly two separators and
  \<open>/\<close> otherwise. \<open>path.relative_to(base_path)\<close> succeeds when the parts of the base are a
  prefix of the parts of the path (and, for an empty base, the path is not absolute) and
  then returns the remaining parts; otherwise it raises \<open>ValueError\<close>, here \<open>None\<close>.
  \<open>str\<close> of a path joins the parts by \<open>/\<close> behind the root, and the empty path prints as
  a dot.
\<close>

type_synonym path = "string list"

definition Path :: "string \<Rightarrow> path" where
  "Path s =
     (if startswith s ''//'' \<and> \<not> startswith s ''///'' then [''//'']
      else if startswith s ''/'' then [''/'']
      else []) @
     filter (\<lambda>x. x \<noteq> [] \<and> x \<noteq> ''.'') (split CHR ''/'' s)"

definition is_absolute :: "path \<Rightarrow> bool" where
  "is_absolute p = (case p of [] \<Rightarrow> False | x # _ \<Rightarrow> x = ''/'' \<or> x = ''//'')"

definition relative_to :: "path \<Rightarrow> path \<Rightarrow> path option" where
  "relative_to p base_path =
     (if prefix base_path p \<and> \<not> (base_path = [] \<and> is_absolute p)
      then Some (drop (length base_path) p) else None)"

definition path_str :: "path \<Rightarrow> string" where
  "path_str p =
     (if p = [] then ''.''
      else if is_absolute p then hd p @ join ''/'' (tl p)
      else join ''/'' p)"

text \<open>
  The user patterns are a \<open>pathspec\<close> object or \<open>None\<close>; of the object only \<open>match_file\<close>
  is used, so it is modelled by that predicate.
\<close>

type_synonym pathspec = "(string \<Rightarrow> bool) option"

definition rel_path_str_of :: "path \<Rightarrow> bool \<Rightarrow> string" where
  "rel_path_str_of rel_path is_dir =
     (if is_dir then path_str rel_path @ ''/'' else path_str rel_path)"

text \<open>
  \<open>should_exclude(path, base_path, spec)\<close> of \<open>contextor/utils.py\<close>. The argument \<open>is_dir\<close>
  is what \<open>path.is_dir()\<close> answers. The \<open>except ValueError: pass\<close> branch falls through to
  the final \<open>return False\<close>.
\<close>

definition should_exclude :: "path \<Rightarrow> bool \<Rightarrow> path \<Rightarrow> pathspec \<Rightarrow> bool" where
  "should_exclude p is_dir base_path spec =
     (case relative_to p base_path of
        None \<Rightarrow> False
      | Some rel_path \<Rightarrow>
          (let rel_path_str = rel_path_str_of rel_path is_dir in
             if default_excluded rel_path_str then True
             else (case spec of
                     None \<Rightarrow> False
                   | Some match_file \<Rightarrow> match_file rel_path_str)))"

text \<open>
  The calls of \<open>spec.match_file\<close> that one call of this \<open>should_exclude\<close> makes, as the
  list of their arguments: the last line of the \<open>try\<close> block is the only call, and it is
  reached only when the loop over the defaults has returned nothing.
\<close>

definition match_file_calls :: "path \<Rightarrow> bool \<Rightarrow> path \<Rightarrow> pathspec \<Rightarrow> string list" where
  "match_file_calls p is_dir base_path spec =
     (case relative_to p base_path of
        None \<Rightarrow> []
      | Some rel_path \<Rightarrow>
          (let rel_path_str = rel_path_str_of rel_path is_dir in
             if default_excluded rel_path_str then []
             else (case spec of
                     None \<Rightarrow> []
                   | Some match_file \<Rightarrow> [rel_path_str])))"

text \<open>
  \<open>should_exclude\<close> of \<open>codecontextor/main.py\<close>: the user patterns only, and \<open>False\<close> at
  once when there are none.
\<close>

definition should_exclude_main :: "path \<Rightarrow> bool \<Rightarrow> path \<Rightarrow> pathspec \<Rightarrow> bool" where
  "should_exclude_main p is_dir base_path spec =
     (case spec of
        None \<Rightarrow> False
      | Some match_file \<Rightarrow>
          (case relative_to p base_path of
             None \<Rightarrow> False
           | Some rel_path \<Rightarrow> match_file (rel_path_str_of rel_path is_dir)))"

section \<open>contextor/utils.py: classifying a file\<close>

type_synonym byte = "8 word"

definition binary_extensions :: "string list" where
  "binary_extensions =
     [''.png'', ''.jpg'', ''.jpeg'', ''.gif'', ''.bmp'', ''.ico'', ''.svg'',
      ''.pdf'', ''.doc'', ''.docx'', ''.ppt'', ''.pptx'', ''.xls'', ''.xlsx'',
      ''.zip'', ''.tar'', ''.gz'', ''.rar'', ''.7z'', ''.bin'', ''.exe'', ''.dll'',
      ''.so'', ''.dylib'', ''.class'', ''.jar'', ''.pyc'']"

text \<open>
  The extension test of \<open>is_binary_file\<close>. Lowering the ASCII letters is enough here: a
  character outside ASCII whose lower-case form ends in an ASCII character is the
  Kelvin sign, which becomes \<open>k\<close>, and no extension of this list holds a \<open>k\<close>.
\<close>

definition has_binary_extension :: "string \<Rightarrow> bool" where
  "has_binary_extension file_path =
     list_ex (\<lambda>ext. endswith (lower file_path) ext) binary_extensions"

text \<open>
  What the program does to the file system is recorded as a list of events, each with the
  path it touches: listing a directory, asking whether a path is a directory, opening a
  file and reading from it, asking for its size, and the warning printed for a large file.
\<close>

datatype io_event =
    ListDir string
  | IsDir string
  | OpenRead string
  | Stat string
  | Warning string

text \<open>
  \<open>is_binary_file(file_path)\<close>. The argument \<open>opened\<close> is what \<open>open(file_path, 'rb')\<close>
  and \<open>f.read(1024)\<close> deliver: the bytes of the file, or \<open>None\<close> when opening or reading
  raises an \<open>OSError\<close>. It is looked at only after the extension test, and the event is
  recorded only then. The result is the verdict and the events.
\<close>

definition is_binary_file :: "string \<Rightarrow> byte list option \<Rightarrow> bool \<times> io_event list" where
  "is_binary_file file_path opened =
     (if has_binary_extension file_path then (True, [])
      else (case opened of
              Some content \<Rightarrow> (0 \<in> set (take 1024 content), [OpenRead file_path])
            | None \<Rightarrow> (True, [OpenRead file_path])))"

text \<open>
  \<open>is_signature_file(file_path)\<close>. Python's \<open>str.lower\<close> lowers every cased character of
  Unicode, by a table that is no part of this program, so the function is given here
  relative to a lowering function; \<open>is_signature_file\<close> is the instance for the lowering
  of the ASCII letters, which is what \<open>str.lower\<close> does to a path of ASCII characters.
\<close>

definition is_signature_file_with :: "(string \<Rightarrow> string) \<Rightarrow> string \<Rightarrow> bool" where
  "is_signature_file_with lower_fn file_path =
     (endswith file_path ''.py'' \<or>
      (endswith (lower_fn file_path) ''.md'' \<or> endswith (lower_fn file_path) ''.markdown'') \<or>
      (endswith (lower_fn file_path) ''.js'' \<or> endswith (lower_fn file_path) ''.jsx'' \<or>
       endswith (lower_fn file_path) ''.ts'' \<or> endswith (lower_fn file_path) ''.tsx'') \<or>
      endswith (lower_fn file_path) ''.sql'')"

definition is_signature_file :: "string \<Rightarrow> bool" where
  "is_signature_file file_path =
     (endswith file_path ''.py'' \<or>
      (endswith (lower file_path) ''.md'' \<or> endswith (lower file_path) ''.markdown'') \<or>
      (endswith (lower file_path) ''.js'' \<or> endswith (lower file_path) ''.jsx'' \<or>
       endswith (lower file_path) ''.ts'' \<or> endswith (lower file_path) ''.tsx'') \<or>
      endswith (lower file_path) ''.sql'')"

section \<open>The file system and the environment\<close>

text \<open>
  The exceptions that leave one of the functions modelled here, or that its handlers
  tell apart.
\<close>

datatype py_error =
    PermissionError
  | NotADirectoryError
  | UnicodeDecodeError
  | CalledProcessError int
  | FileNotFoundError

text \<open>
  A file system below one directory is a tree. Of a file the program may ask for its
  first bytes and for its size; either request may fail with an \<open>OSError\<close> (\<open>None\<close>). A
  directory has its entries, by name, in the order \<open>os.scandir\<close> gives them. It may
  refuse to be listed (the first flag is \<open>False\<close>: no read permission), and it may refuse
  access to its entries (the second flag is \<open>False\<close>: no search permission); in a
  directory that can be listed and not searched the names are known, and
  \<open>Path.is_dir()\<close> on an entry raises \<open>PermissionError\<close>. Symbolic links are not modelled.
\<close>

datatype node =
    File "byte list option" "int option"
  | Dir bool bool "(string \<times> node) list"

fun is_dir :: "node \<Rightarrow> bool" where
  "is_dir (Dir _ _ _) = True"
| "is_dir (File _ _) = False"

text \<open>
  \<open>subprocess.run(['git', 'ls-files', '--full-name'], cwd=path, stdout=PIPE, text=True,
  check=True)\<close> returns the lines of the output or raises: \<open>CalledProcessError\<close> when the
  exit status is not zero (which is what \<open>git\<close> does outside a repository, with status
  128), \<open>FileNotFoundError\<close> when there is no \<open>git\<close>, \<open>PermissionError\<close> when the program or
  the directory may not be used, \<open>NotADirectoryError\<close> when \<open>path\<close> is no directory, and
  \<open>UnicodeDecodeError\<close> when the output cannot be decoded.
\<close>

datatype git_outcome =
    Stdout "string list"
  | Raises py_error

text \<open>
  The environment of one run: the tree at the directory that is scanned (\<open>None\<close> when
  there is no such directory), what the \<open>git\<close> call does, the functions
  \<open>os.path.abspath\<close> and \<open>os.path.normpath\<close>, which depend on the working directory,
  and \<open>str.lower\<close>.
\<close>

record os_env =
  fs_root :: "node option"
  git_run :: git_outcome
  abspath :: "string \<Rightarrow> string"
  normpath :: "string \<Rightarrow> string"
  str_lower :: "string \<Rightarrow> string"

section \<open>contextor/utils.py: git\<close>

text \<open>
  \<open>is_git_repo(path)\<close> is \<open>os.path.isdir(os.path.join(path, '.git'))\<close>, which is \<open>False\<close>
  when the entry cannot be looked at.
\<close>

fun is_git_repo :: "node option \<Rightarrow> bool" where
  "is_git_repo (Some (Dir _ searchable es)) =
     (searchable \<and> list_ex (\<lambda>(n, x). n = ''.git'' \<and> is_dir x) es)"
| "is_git_repo _ = False"

text \<open>
  The handler of \<open>get_git_tracked_files\<close> is
  \<open>except (subprocess.SubprocessError, FileNotFoundError)\<close>; of the exceptions above,
  \<open>CalledProcessError\<close> is the one that is a \<open>SubprocessError\<close>.
\<close>

fun handled :: "py_error \<Rightarrow> bool" where
  "handled (CalledProcessError _) = True"
| "handled FileNotFoundError = True"
| "handled PermissionError = False"
| "handled NotADirectoryError = False"
| "handled UnicodeDecodeError = False"

definition get_git_tracked_files :: "os_env \<Rightarrow> string \<Rightarrow> py_error + string set" where
  "get_git_tracked_files os path =
     (case git_run os of
        Stdout lines \<Rightarrow> Inr ((\<lambda>f. normpath os (abspath os (os_path_join path f))) ` set lines)
      | Raises e \<Rightarrow> if handled e then Inr {} else Inl e)"

section \<open>contextor/utils.py: the scan\<close>

text \<open>
  What stays fixed during the walk: the arguments of \<open>scan_project_files\<close>, the tracked
  set computed before the loop, \<open>os.path.abspath\<close> and \<open>str.lower\<close>.
\<close>

record walk_ctx =
  ctx_directory :: string
  ctx_spec :: pathspec
  ctx_git_only_signatures :: bool
  ctx_git_tracked :: "string set"
  ctx_abspath :: "string \<Rightarrow> string"
  ctx_lower :: "string \<Rightarrow> string"

text \<open>
  What the loop changes: the two lists, the events so far, and the exception that has
  left the loop, if any. Once an exception is raised nothing more is done.
\<close>

record scan_state =
  all_files :: "string list"
  signature_candidates :: "string list"
  events :: "io_event list"
  raised :: "py_error option"

definition record_events :: "io_event list \<Rightarrow> scan_state \<Rightarrow> scan_state" where
  "record_events evs st = st\<lparr>events := events st @ evs\<rparr>"

text \<open>
  One call \<open>should_exclude(Path(path_string), directory, spec)\<close> from the scan, for a path
  in a directory that can be searched or not. Inside \<open>should_exclude\<close>, \<open>path.is_dir()\<close>
  is reached only when \<open>relative_to\<close> has not raised; it answers \<open>d\<close> when the directory
  can be searched and raises \<open>PermissionError\<close> otherwise, which \<open>except ValueError\<close> does
  not catch and the scan does not guard.
\<close>

definition check_exclude ::
  "walk_ctx \<Rightarrow> bool \<Rightarrow> string \<Rightarrow> bool \<Rightarrow> scan_state \<Rightarrow> bool \<times> scan_state"
where
  "check_exclude ctx searchable path_string d st =
     (let excluded =
            should_exclude (Path path_string) d (Path (ctx_directory ctx)) (ctx_spec ctx)
      in case relative_to (Path path_string) (Path (ctx_directory ctx)) of
           None \<Rightarrow> (excluded, st)
         | Some _ \<Rightarrow>
             (let st1 = record_events [IsDir path_string] st in
              if searchable then (excluded, st1)
              else (False, st1\<lparr>raised := Some PermissionError\<rparr>)))"

text \<open>
  The body of \<open>for filename in filenames\<close> for one file, whose first bytes and size are
  the two arguments after the name.
\<close>

definition scan_file ::
  "walk_ctx \<Rightarrow> bool \<Rightarrow> string \<Rightarrow> string \<Rightarrow> byte list option \<Rightarrow> int option \<Rightarrow>
   scan_state \<Rightarrow> scan_state"
where
  "scan_file ctx searchable root filename opened st_size st =
     (if raised st \<noteq> None then st
      else
        (let file_path = os_path_join root filename;
             abs_path = ctx_abspath ctx file_path
         in case check_exclude ctx searchable file_path False st of
              (excluded, st1) \<Rightarrow>
                if raised st1 \<noteq> None \<or> excluded then st1
                else (case is_binary_file file_path opened of
                        (binary, evs) \<Rightarrow>
                          (let st2 = record_events evs st1 in
                           if binary then st2
                           else (case st_size of
                                   None \<Rightarrow> record_events [Stat file_path] st2
                                 | Some n \<Rightarrow>
                                     if n > 10 * 1024 * 1024
                                     then record_events [Stat file_path, Warning file_path] st2
                                     else (let st3 = (record_events [Stat file_path] st2)
                                                       \<lparr>all_files := all_files st2 @ [file_path]\<rparr>
                                           in if is_signature_file_with (ctx_lower ctx) file_path \<and>
                                                 (\<not> ctx_git_only_signatures ctx \<or>
                                                  abs_path \<in> ctx_git_tracked ctx)
                                              then st3\<lparr>signature_candidates :=
                                                          signature_candidates st3 @ [file_path]\<rparr>
                                              else st3))))))"

text \<open>The loop over \<open>filenames\<close>: the entries of the directory that are files, in order.\<close>

fun scan_entry ::
  "walk_ctx \<Rightarrow> bool \<Rightarrow> string \<Rightarrow> string \<times> node \<Rightarrow> scan_state \<Rightarrow> scan_state"
where
  "scan_entry ctx searchable root (filename, File opened st_size) st =
     scan_file ctx searchable root filename opened st_size st"
| "scan_entry ctx searchable root (d, Dir _ _ _) st = st"

text \<open>
  The loop over \<open>dirnames\<close> that builds \<open>filtered_dirs\<close>: the names that are kept, with
  the state after the tests.
\<close>

definition dirnames :: "(string \<times> node) list \<Rightarrow> string list" where
  "dirnames es = map fst (filter (\<lambda>(n, x). is_dir x) es)"

fun filter_dirs ::
  "walk_ctx \<Rightarrow> bool \<Rightarrow> string \<Rightarrow> string list \<Rightarrow> scan_state \<Rightarrow> string list \<times> scan_state"
where
  "filter_dirs ctx searchable root [] st = ([], st)"
| "filter_dirs ctx searchable root (d # ds) st =
     (case check_exclude ctx searchable (os_path_join root d) True st of
        (excluded, st1) \<Rightarrow>
          if raised st1 \<noteq> None then ([], st1)
          else (case filter_dirs ctx searchable root ds st1 of
                  (filtered, st2) \<Rightarrow> (if excluded then filtered else d # filtered, st2)))"

text \<open>
  \<open>os.walk(directory)\<close>, top down, with the body of the loop of \<open>scan_project_files\<close>
  run at each directory before the walk goes on. A directory that cannot be listed (or a
  path that is no directory) yields nothing: \<open>os.walk\<close> is called without \<open>onerror\<close> and
  drops the error of \<open>scandir\<close>. After the body, the walk descends into the
  subdirectories whose names the body left in \<open>dirnames\<close>, in order.
\<close>

fun walk :: "walk_ctx \<Rightarrow> string \<Rightarrow> node \<Rightarrow> scan_state \<Rightarrow> scan_state"
and walk_dirs ::
  "walk_ctx \<Rightarrow> string \<Rightarrow> string list \<Rightarrow> (string \<times> node) list \<Rightarrow> scan_state \<Rightarrow> scan_state"
where
  "walk ctx root (File _ _) st = record_events [ListDir root] st"
| "walk ctx root (Dir False searchable es) st = record_events [ListDir root] st"
| "walk ctx root (Dir True searchable es) st =
     (case filter_dirs ctx searchable root (dirnames es) (record_events [ListDir root] st) of
        (filtered, st1) \<Rightarrow>
          walk_dirs ctx root filtered es (fold (scan_entry ctx searchable root) es st1))"
| "walk_dirs ctx root kept [] st = st"
| "walk_dirs ctx root kept ((d, x) # es) st =
     (if raised st = None \<and> is_dir x \<and> d \<in> set kept
      then walk_dirs ctx root kept es (walk ctx (os_path_join root d) x st)
      else walk_dirs ctx root kept es st)"

definition initial_state :: scan_state where
  "initial_state = \<lparr>all_files = [], signature_candidates = [], events = [], raised = None\<rparr>"

definition walk_root :: "walk_ctx \<Rightarrow> node option \<Rightarrow> scan_state" where
  "walk_root ctx root_node =
     (case root_node of
        None \<Rightarrow> record_events [ListDir (ctx_directory ctx)] initial_state
      | Some n \<Rightarrow> walk ctx (ctx_directory ctx) n initial_state)"

record scan_result =
  r_all_files :: "string list"
  r_signature_candidates :: "string list"
  r_git_tracked :: "string set"

text \<open>
  The first lines of \<open>scan_project_files\<close>: \<open>git_tracked\<close> is empty unless
  \<open>is_git_repo(directory)\<close>, whatever \<open>git_only_signatures\<close> is, and an exception of
  \<open>get_git_tracked_files\<close> leaves the function; and the values the loop then works with.
\<close>

definition tracked_set :: "os_env \<Rightarrow> string \<Rightarrow> py_error + string set" where
  "tracked_set os directory =
     (if is_git_repo (fs_root os) then get_git_tracked_files os directory else Inr {})"

definition scan_ctx :: "os_env \<Rightarrow> string \<Rightarrow> pathspec \<Rightarrow> bool \<Rightarrow> string set \<Rightarrow> walk_ctx" where
  "scan_ctx os directory spec git_only_signatures git_tracked =
     \<lparr>ctx_directory = directory, ctx_spec = spec,
      ctx_git_only_signatures = git_only_signatures,
      ctx_git_tracked = git_tracked,
      ctx_abspath = abspath os,
      ctx_lower = str_lower os\<rparr>"

text \<open>
  One run of \<open>scan_project_files(directory, spec, git_only_signatures)\<close>, as the state in
  which it ends; then what the call gives to its caller, an exception or the dictionary;
  and the events of the run, whichever way it ends.
\<close>

definition scan_run :: "os_env \<Rightarrow> string \<Rightarrow> pathspec \<Rightarrow> bool \<Rightarrow> scan_state" where
  "scan_run os directory spec git_only_signatures =
     (case tracked_set os directory of
        Inl e \<Rightarrow> initial_state\<lparr>raised := Some e\<rparr>
      | Inr git_tracked \<Rightarrow>
          walk_root (scan_ctx os directory spec git_only_signatures git_tracked) (fs_root os))"

definition scan_project_files ::
  "os_env \<Rightarrow> string \<Rightarrow> pathspec \<Rightarrow> bool \<Rightarrow> py_error + scan_result"
where
  "scan_project_files os directory spec git_only_signatures =
     (case tracked_set os directory of
        Inl e \<Rightarrow> Inl e
      | Inr git_tracked \<Rightarrow>
          (let st = walk_root (scan_ctx os directory spec git_only_signatures git_tracked)
                      (fs_root os)
           in case raised st of
                Some e \<Rightarrow> Inl e
              | None \<Rightarrow> Inr \<lparr>r_all_files = sort (all_files st),
                             r_signature_candidates = sort (signature_candidates st),
                             r_git_tracked = git_tracked\<rparr>))"

definition scan_events :: "os_env \<Rightarrow> string \<Rightarrow> pathspec \<Rightarrow> bool \<Rightarrow> io_event list" where
  "scan_events os directory spec git_only_signatures =
     events (scan_run os directory spec git_only_signatures)"

section \<open>codecontextor/main.py: the tree\<close>

text \<open>
  The strings that \<open>format_name\<close> and \<open>generate_tree\<close> put in front of a name, as the
  UTF-8 bytes of their box-drawing characters: up-and-right (for the last item) or
  vertical-and-right, followed by two horizontals and a space; and, for the lines below
  an item, four spaces (below the last item) or a vertical and three spaces.
\<close>

definition last_connector :: string where
  "last_connector = [CHR 0xE2, CHR 0x94, CHR 0x94, CHR 0xE2, CHR 0x94, CHR 0x80,
                     CHR 0xE2, CHR 0x94, CHR 0x80, CHR '' '']"

definition mid_connector :: string where
  "mid_connector = [CHR 0xE2, CHR 0x94, CHR 0x9C, CHR 0xE2, CHR 0x94, CHR 0x80,
                    CHR 0xE2, CHR 0x94, CHR 0x80, CHR '' '']"

definition last_extension :: string where
  "last_extension = ''    ''"

definition mid_extension :: string where
  "mid_extension = [CHR 0xE2, CHR 0x94, CHR 0x82, CHR '' '', CHR '' '', CHR '' '']"

text \<open>\<open>format_name(path, is_last)\<close>, from \<open>path.name\<close> and \<open>path.is_dir()\<close>.\<close>

definition format_name :: "string \<Rightarrow> bool \<Rightarrow> bool \<Rightarrow> string" where
  "format_name name dir is_last =
     (if is_last then last_connector else mid_connector) @ name @ (if dir then ''/'' else [])"

text \<open>
  The two steps of \<open>generate_tree\<close> before its loop: the entries of \<open>path.iterdir()\<close> that
  its own \<open>should_exclude\<close> lets through, relative to the directory that is being listed,
  and \<open>items.sort(key=lambda x: (not x.is_dir(), x.name.lower()))\<close>, which is stable;
  \<open>str.lower\<close> is a parameter, as it is for the scan. Strings are compared as Python
  compares them: by code points, which is the order of their UTF-8 bytes.
\<close>

definition visible_items :: "path \<Rightarrow> pathspec \<Rightarrow> (string \<times> node) list \<Rightarrow> (string \<times> node) list" where
  "visible_items p spec es =
     filter (\<lambda>(name, x). \<not> should_exclude_main (p @ [name]) (is_dir x) p spec) es"

definition sort_items ::
  "(string \<Rightarrow> string) \<Rightarrow> (string \<times> node) list \<Rightarrow> (string \<times> node) list"
where
  "sort_items lower_fn items = sort_key (\<lambda>(name, x). (\<not> is_dir x, lower_fn name)) items"

text \<open>
  The loop over the items hands on the first exception of a recursive call, and
  otherwise puts the lines together.
\<close>

fun collect :: "(py_error + string list) list \<Rightarrow> py_error + string list" where
  "collect [] = Inr []"
| "collect (Inl e # rs) = Inl e"
| "collect (Inr ls # rs) = (case collect rs of Inl e \<Rightarrow> Inl e | Inr ms \<Rightarrow> Inr (ls @ ms))"

text \<open>
  \<open>generate_tree\<close> on a directory that exists, given by whether it can be listed, whether
  it can be searched, and its entries. A \<open>PermissionError\<close> of \<open>iterdir\<close> returns what is
  there so far, the root line at most. In a directory that can be listed and not
  searched every \<open>is_dir()\<close> on an entry raises \<open>PermissionError\<close>: with user patterns
  this happens inside \<open>should_exclude\<close> at the first item that \<open>relative_to\<close> accepts, within
  the \<open>try\<close>, so what is there so far is returned; without user patterns \<open>should_exclude\<close>
  asks nothing, every item is kept, and the sort key raises outside the \<open>try\<close>.
\<close>

function tree_lines ::
  "(string \<Rightarrow> string) \<Rightarrow> path \<Rightarrow> pathspec \<Rightarrow> string \<Rightarrow> bool \<Rightarrow> bool \<Rightarrow>
   (string \<times> node) list \<Rightarrow> py_error + string list"
where
  "tree_lines lower_fn p spec pre listable searchable es =
     (let entries = (if pre = [] then [path_str p] else []) in
      if \<not> listable then Inr entries
      else if \<not> searchable \<and> es \<noteq> [] then
        (if spec \<noteq> None \<and> list_ex (\<lambda>(name, x). relative_to (p @ [name]) p \<noteq> None) es
         then Inr entries
         else Inl PermissionError)
      else
        (let items = sort_items lower_fn (visible_items p spec es) in
         case collect (map (\<lambda>index.
                (case items ! index of
                   (name, x) \<Rightarrow>
                     (let is_last = (index = length items - 1);
                          line = pre @ format_name name (is_dir x) is_last
                      in case x of
                           Dir l s sub \<Rightarrow>
                             (case tree_lines lower_fn (p @ [name]) spec
                                     (pre @ (if is_last then last_extension else mid_extension))
                                     l s sub of
                                Inl e \<Rightarrow> Inl e
                              | Inr ls \<Rightarrow> Inr (line # ls))
                         | File _ _ \<Rightarrow> Inr [line])))
                [0 ..< length items]) of
           Inl e \<Rightarrow> Inl e
         | Inr ls \<Rightarrow> Inr (entries @ ls)))"
  by pat_completeness auto
termination
proof (relation "measure (\<lambda>(lw, p, spec, pre, listable, searchable, es).
                   size_list (size_prod (\<lambda>_. 0) size) es)")
  show "wf (measure (\<lambda>(lw, p, spec, pre, listable, searchable, es).
              size_list (size_prod (\<lambda>_. 0) size) es))"
    by simp
next
  fix lw :: "string \<Rightarrow> string" and spec :: pathspec and p :: path and pre :: string
    and listable searchable :: bool
    and es items :: "(string \<times> node) list" and index :: nat and name :: string
    and x :: node and l s :: bool and sub :: "(string \<times> node) list"
    and is_last :: bool
  assume items: "items = sort_items lw (visible_items p spec es)"
    and idx: "index \<in> set [0 ..< length items]"
    and it: "(name, x) = items ! index"
    and x: "x = Dir l s sub"
  from idx have "items ! index \<in> set items" by simp
  with it x have "(name, Dir l s sub) \<in> set items" by simp
  then have mem: "(name, Dir l s sub) \<in> set es"
    by (auto simp: items sort_items_def visible_items_def)
  have "size_prod (\<lambda>_. 0) size (name, Dir l s sub) \<le> size_list (size_prod (\<lambda>_. 0) size) es"
    by (rule size_list_estimation' [OF mem]) simp
  then show "((lw, p @ [name], spec, pre @ (if is_last then last_extension else mid_extension),
               l, s, sub),
              (lw, p, spec, pre, listable, searchable, es))
             \<in> measure (\<lambda>(lw, p, spec, pre, listable, searchable, es).
                  size_list (size_prod (\<lambda>_. 0) size) es)"
    by simp
qed

declare tree_lines.simps [simp del]

text \<open>
  \<open>generate_tree(path, spec, prefix)\<close>: nothing for a path that does not exist; on a file,
  \<open>iterdir\<close> raises \<open>NotADirectoryError\<close>, which is not caught.
\<close>

definition generate_tree ::
  "(string \<Rightarrow> string) \<Rightarrow> path \<Rightarrow> node option \<Rightarrow> pathspec \<Rightarrow> string \<Rightarrow>
   py_error + string list"
where
  "generate_tree lower_fn p root spec pre =
     (case root of
        None \<Rightarrow> Inr []
      | Some (File _ _) \<Rightarrow> Inl NotADirectoryError
      | Some (Dir listable searchable es) \<Rightarrow> tree_lines lower_fn p spec pre listable searchable es)"





section \<open>Notions for stating what the scan touches\<close>

text \<open>
  The names that \<open>os.scandir\<close> can deliver: not empty, without a separator, and neither of
  the two dot entries. A tree is well formed when all its names are such.
\<close>

definition valid_name :: "string \<Rightarrow> bool" where
  "valid_name n = (n \<noteq> [] \<and> CHR ''/'' \<notin> set n \<and> n \<noteq> ''.'' \<and> n \<noteq> ''..'')"

fun valid_names :: "node \<Rightarrow> bool"
and valid_entries :: "(string \<times> node) list \<Rightarrow> bool"
where
  "valid_names (File _ _) = True"
| "valid_names (Dir _ _ es) = valid_entries es"
| "valid_entries [] = True"
| "valid_entries ((n, x) # es) = (valid_name n \<and> valid_names x \<and> valid_entries es)"


text \<open>
  The string \<open>os.walk\<close> builds for the directory reached from \<open>directory\<close> through the
  given names, one \<open>os.path.join\<close> per level.
\<close>

definition descend :: "string \<Rightarrow> string list \<Rightarrow> string" where
  "descend directory names = foldl os_path_join directory names"

text \<open>A path lies below a directory when it continues the path of the directory after a separator.\<close>

definition below :: "string \<Rightarrow> string \<Rightarrow> bool" where
  "below dir_path s = startswith s (dir_path @ ''/'')"

fun event_path :: "io_event \<Rightarrow> string" where
  "event_path (ListDir s) = s"
| "event_path (IsDir s) = s"
| "event_path (OpenRead s) = s"
| "event_path (Stat s) = s"
| "event_path (Warning s) = s"

text \<open>
  The test the walk makes on a subdirectory, as a property of the path string; the lists
  of names along which every directory strictly above the end (\<open>reached\<close>), or every
  directory including the end (\<open>walked\<close>), passes that test; and the states in which
  every reported file and every event lies at the end of such a list.
\<close>

definition excluded_dir :: "walk_ctx \<Rightarrow> string \<Rightarrow> bool" where
  "excluded_dir ctx s = should_exclude (Path s) True (Path (ctx_directory ctx)) (ctx_spec ctx)"

text \<open>
  The same test for the subdirectory \<open>d\<close> of \<open>root\<close>, as the walk asks it: the answer of
  \<open>should_exclude\<close> when \<open>is_dir()\<close> can answer.
\<close>

definition keep_dir :: "walk_ctx \<Rightarrow> string \<Rightarrow> string \<Rightarrow> bool" where
  "keep_dir ctx root d =
     (\<not> should_exclude (Path (os_path_join root d)) True (Path (ctx_directory ctx)) (ctx_spec ctx))"

definition reached :: "walk_ctx \<Rightarrow> string list \<Rightarrow> bool" where
  "reached ctx qs \<longleftrightarrow>
     list_all valid_name qs \<and>
     (\<forall>k. 0 < k \<and> k < length qs \<longrightarrow>
        \<not> excluded_dir ctx (descend (ctx_directory ctx) (take k qs)))"

definition walked :: "walk_ctx \<Rightarrow> string list \<Rightarrow> bool" where
  "walked ctx qs \<longleftrightarrow>
     list_all valid_name qs \<and>
     (\<forall>k. 0 < k \<and> k \<le> length qs \<longrightarrow>
        \<not> excluded_dir ctx (descend (ctx_directory ctx) (take k qs)))"

definition path_ok :: "walk_ctx \<Rightarrow> string \<Rightarrow> bool" where
  "path_ok ctx s \<longleftrightarrow> (\<exists>qs. s = descend (ctx_directory ctx) qs \<and> reached ctx qs)"

fun event_ok :: "walk_ctx \<Rightarrow> io_event \<Rightarrow> bool" where
  "event_ok ctx (ListDir s) = (\<exists>qs. s = descend (ctx_directory ctx) qs \<and> walked ctx qs)"
| "event_ok ctx (IsDir s) = path_ok ctx s"
| "event_ok ctx (OpenRead s) = path_ok ctx s"
| "event_ok ctx (Stat s) = path_ok ctx s"
| "event_ok ctx (Warning s) = path_ok ctx s"

definition touches_ok :: "walk_ctx \<Rightarrow> scan_state \<Rightarrow> bool" where
  "touches_ok ctx st \<longleftrightarrow>
     list_all (path_ok ctx) (all_files st) \<and>
     list_all (path_ok ctx) (signature_candidates st) \<and>
     list_all (event_ok ctx) (events st)"

text \<open>The candidates are the reported files that pass the last test of the loop.\<close>

definition cand_ok :: "walk_ctx \<Rightarrow> scan_state \<Rightarrow> bool" where
  "cand_ok ctx st \<longleftrightarrow>
     signature_candidates st =
       filter (\<lambda>f. is_signature_file_with (ctx_lower ctx) f \<and>
                 (\<not> ctx_git_only_signatures ctx \<or> ctx_abspath ctx f \<in> ctx_git_tracked ctx))
         (all_files st)"




section \<open>A small project\<close>

text \<open>
  A project directory with two source files, a file that is no source file, a file that
  cannot be opened, a directory that cannot be listed, a build directory, a source
  directory and a repository in which \<open>main.py\<close>, \<open>package.json\<close> and \<open>src/app.py\<close> are
  tracked. All its names are ASCII, so \<open>str.lower\<close> is \<open>lower\<close> on them.
\<close>

definition example_tree :: node where
  "example_tree = Dir True True
     [(''main.py'', File (Some [112, 97, 115, 115]) (Some 4)),
      (''notes.py'', File (Some [35]) (Some 1)),
      (''package.json'', File (Some [123, 125]) (Some 2)),
      (''secret.py'', File None (Some 9)),
      (''locked'', Dir False True [(''x.py'', File (Some [35]) (Some 1))]),
      (''build'', Dir True True [(''out.js'', File (Some [47, 47]) (Some 2))]),
      (''src'', Dir True True [(''app.py'', File (Some [35]) (Some 1))]),
      (''.git'', Dir True True [])]"

definition example_os :: os_env where
  "example_os =
     \<lparr>fs_root = Some example_tree,
      git_run = Stdout [''main.py'', ''package.json'', ''src/app.py''],
      abspath = (\<lambda>p. p), normpath = (\<lambda>p. p), str_lower = lower\<rparr>"

text \<open>What the scan of this project returns when tracking is required, and when it is not.\<close>

definition example_result :: scan_result where
  "example_result =
     \<lparr>r_all_files = [''/proj/main.py'', ''/proj/notes.py'', ''/proj/package.json'',
                     ''/proj/src/app.py''],
      r_signature_candidates = [''/proj/main.py'', ''/proj/src/app.py''],
      r_git_tracked = {''/proj/main.py'', ''/proj/package.json'', ''/proj/src/app.py''}\<rparr>"

definition example_result_untracked :: scan_result where
  "example_result_untracked =
     \<lparr>r_all_files = [''/proj/main.py'', ''/proj/notes.py'', ''/proj/package.json'',
                     ''/proj/src/app.py''],
      r_signature_candidates = [''/proj/main.py'', ''/proj/notes.py'', ''/proj/src/app.py''],
      r_git_tracked = {''/proj/main.py'', ''/proj/package.json'', ''/proj/src/app.py''}\<rparr>"




text \<open>
  A machine on which the directory to scan holds one file and can be listed but not
  searched.
\<close>

definition unsearchable_os :: os_env where
  "unsearchable_os =
     \<lparr>fs_root = Some (Dir True False [(''a.py'', File (Some [35]) (Some 1))]),
      git_run = Raises FileNotFoundError,
      abspath = (\<lambda>p. p), normpath = (\<lambda>p. p), str_lower = lower\<rparr>"

text \<open>
  A directory for the tree: one subdirectory with one file, and two sibling files, of
  which the user patterns exclude \<open>b.txt\<close>.
\<close>

definition tree_example :: "(string \<times> node) list" where
  "tree_example =
     [(''b.txt'', File None None),
      (''src'', Dir True True [(''Main.py'', File None None)]),
      (''A.md'', File None None)]"

definition example_spec :: pathspec where
  "example_spec = Some (\<lambda>rel_path_str. rel_path_str = ''b.txt'')"

section \<open>Facts about the string functions\<close>

lemma split_nonempty: "split c s \<noteq> []"
  by (induction s) (auto split: list.splits)

lemma join_split: "join [c] (split c s) = s"
proof (induction s)
  case Nil
  show ?case by simp
next
  case (Cons x xs)
  obtain p ps where sp: "split c xs = p # ps"
    using split_nonempty [of c xs] by (cases "split c xs") auto
  show ?case
  proof (cases "x = c")
    case True
    with Cons sp show ?thesis by simp
  next
    case False
    with Cons sp show ?thesis by (cases ps) auto
  qed
qed

lemma join_append:
  "xs \<noteq> [] \<Longrightarrow> ys \<noteq> [] \<Longrightarrow> join sep (xs @ ys) = join sep xs @ sep @ join sep ys"
proof (induction sep xs rule: join.induct)
  case (1 sep)
  then show ?case by simp
next
  case (2 sep p)
  then show ?case by (cases ys) auto
next
  case (3 sep p q ps)
  then show ?case by simp
qed

lemma join_take_prefix:
  assumes "Suc i < length parts"
  shows "prefix (join sep (take (Suc i) parts) @ sep) (join sep parts)"
proof -
  have ne: "take (Suc i) parts \<noteq> []" "drop (Suc i) parts \<noteq> []"
    using assms by auto
  have "join sep parts = join sep (take (Suc i) parts @ drop (Suc i) parts)"
    by simp
  also have "\<dots> = join sep (take (Suc i) parts) @ sep @ join sep (drop (Suc i) parts)"
    using ne by (rule join_append)
  finally show ?thesis by (simp add: prefix_def)
qed

lemma lower_append: "lower (a @ b) = lower a @ lower b"
  by (simp add: lower_def)

lemma length_lower: "length (lower a) = length a"
  by (simp add: lower_def)

lemma endswith_append_self: "endswith (p @ e) e"
  by (simp add: endswith_def suffix_def)

lemma endswith_append_same_length:
  "length suf = length e \<Longrightarrow> endswith (p @ e) suf = (suf = e)"
  by (auto simp: endswith_def suffix_def)

lemma endswith_append_longer:
  "endswith (p @ e) suf \<Longrightarrow> length e \<le> length suf \<Longrightarrow> endswith suf e"
  unfolding endswith_def suffix_def
  by (auto simp: append_eq_append_conv2)

section \<open>The rule for directory patterns\<close>

text \<open>
  What the loop over the leading segments adds to \<open>startswith\<close>: a run that stops before
  the last segment is a prefix of the path that ends at a separator, so only the run of
  all segments can match a path that does not start with the pattern.
\<close>

lemma dir_loop_cases:
  assumes "list_ex (\<lambda>i. join ''/'' (take (i + 1) (split CHR ''/'' s)) @ ''/'' = pattern)
             [0 ..< length (split CHR ''/'' s)]"
  shows "startswith s pattern \<or> s @ ''/'' = pattern"
proof -
  let ?parts = "split CHR ''/'' s"
  from assms obtain i where i: "i < length ?parts"
    and eq: "join ''/'' (take (Suc i) ?parts) @ ''/'' = pattern"
    by (auto simp: list_ex_iff)
  show ?thesis
  proof (cases "Suc i < length ?parts")
    case True
    from join_take_prefix [OF True, of "''/''"] eq
    have "prefix pattern (join ''/'' ?parts)" by simp
    then show ?thesis using join_split [of "CHR ''/''" s] by (simp add: startswith_def)
  next
    case False
    with i have "take (Suc i) ?parts = ?parts" by simp
    with eq have "join ''/'' ?parts @ ''/'' = pattern" by simp
    then show ?thesis using join_split [of "CHR ''/''" s] by simp
  qed
qed

lemma dir_pattern_match_iff:
  "dir_pattern_match pattern s \<longleftrightarrow>
     s = pattern \<or> startswith s pattern \<or> (CHR ''/'' \<in> set s \<and> s @ ''/'' = pattern)"
proof
  assume "dir_pattern_match pattern s"
  then show "s = pattern \<or> startswith s pattern \<or> (CHR ''/'' \<in> set s \<and> s @ ''/'' = pattern)"
    unfolding dir_pattern_match_def Let_def using dir_loop_cases [of s pattern] by blast
next
  let ?parts = "split CHR ''/'' s"
  assume r: "s = pattern \<or> startswith s pattern \<or> (CHR ''/'' \<in> set s \<and> s @ ''/'' = pattern)"
  show "dir_pattern_match pattern s"
  proof (cases "s = pattern \<or> startswith s pattern")
    case True
    then show ?thesis by (auto simp: dir_pattern_match_def)
  next
    case False
    with r have sl: "CHR ''/'' \<in> set s" and eq: "s @ ''/'' = pattern" by auto
    have ne: "?parts \<noteq> []" by (rule split_nonempty)
    then have "length ?parts - 1 < length ?parts" by (cases ?parts) auto
    moreover have "take (length ?parts - 1 + 1) ?parts = ?parts" using ne by (cases ?parts) auto
    then have "join ''/'' (take (length ?parts - 1 + 1) ?parts) @ ''/'' = pattern"
      using eq join_split [of "CHR ''/''" s] by simp
    ultimately have "list_ex (\<lambda>i. join ''/'' (take (i + 1) ?parts) @ ''/'' = pattern)
                       [0 ..< length ?parts]"
      unfolding list_ex_iff by (metis atLeastLessThan_iff set_upt zero_le)
    with sl show ?thesis by (simp add: dir_pattern_match_def Let_def)
  qed
qed

text \<open>
  Claim C2. The four examples of the claim come out as it says. But the loop over
  \<open>range(len(parts))\<close> also takes the run of all the segments, which is the path itself
  and no parent of it: the path \<open>__tests__/__snapshots__\<close> of a file (no \<open>/\<close> is put
  behind the path of a file) neither equals the default pattern
  \<open>__tests__/__snapshots__/\<close> nor starts with it, and it has no directory segment above
  it that equals the pattern, and yet the pattern matches it and \<open>should_exclude\<close>
  excludes the file. A file \<open>build\<close> at the top, which spells the pattern \<open>build/\<close> in the
  same way, is not matched, because the loop runs only for a path that holds a \<open>/\<close>.
\<close>

theorem dir_pattern_matches_file_spelling_it:
  "default_pattern_match ''build/'' ''build/'' \<and>
   default_pattern_match ''build/'' ''build/dist/output.js'' \<and>
   default_pattern_match ''build/'' ''build/temp/cache.tmp'' \<and>
   \<not> default_pattern_match ''build/'' ''buildtools/file.txt'' \<and>
   ''__tests__/__snapshots__/'' \<in> set DEFAULT_EXCLUSIONS \<and>
   endswith ''__tests__/__snapshots__/'' ''/'' \<and>
   \<not> spec_dir_pattern_match ''__tests__/__snapshots__/'' ''__tests__/__snapshots__'' \<and>
   default_pattern_match ''__tests__/__snapshots__/'' ''__tests__/__snapshots__'' \<and>
   should_exclude (Path ''/proj/__tests__/__snapshots__'') False (Path ''/proj'') None \<and>
   \<not> default_pattern_match ''build/'' ''build'' \<and>
   \<not> should_exclude (Path ''/proj/build'') False (Path ''/proj'') None"
proof -
  have e: "endswith ''build/'' ''/''"
    by (simp add: endswith_def suffix_to_prefix)
  have 1: "default_pattern_match ''build/'' ''build/''"
    using e by (simp add: default_pattern_match_def dir_pattern_match_iff)
  have 2: "default_pattern_match ''build/'' ''build/dist/output.js''"
    using e by (simp add: default_pattern_match_def dir_pattern_match_iff startswith_def)
  have 3: "default_pattern_match ''build/'' ''build/temp/cache.tmp''"
    using e by (simp add: default_pattern_match_def dir_pattern_match_iff startswith_def)
  have 4: "\<not> default_pattern_match ''build/'' ''buildtools/file.txt''"
    using e by (simp add: default_pattern_match_def dir_pattern_match_iff startswith_def)
  have a: "''__tests__/__snapshots__/'' \<in> set DEFAULT_EXCLUSIONS"
    by (simp add: DEFAULT_EXCLUSIONS_def)
  have b: "endswith ''__tests__/__snapshots__/'' ''/''"
    by (simp add: endswith_def suffix_to_prefix)
  have c: "\<not> spec_dir_pattern_match ''__tests__/__snapshots__/'' ''__tests__/__snapshots__''"
    by code_simp
  have d: "default_pattern_match ''__tests__/__snapshots__/'' ''__tests__/__snapshots__''"
    using b by (simp add: default_pattern_match_def dir_pattern_match_iff)
  have f: "should_exclude (Path ''/proj/__tests__/__snapshots__'') False (Path ''/proj'') None"
    by code_simp
  have g: "\<not> default_pattern_match ''build/'' ''build''"
    using e by (simp add: default_pattern_match_def dir_pattern_match_iff startswith_def)
  have h: "\<not> should_exclude (Path ''/proj/build'') False (Path ''/proj'') None"
    by code_simp
  from 1 2 3 4 a b c d f g h show ?thesis by blast
qed

section \<open>The order of the two layers of patterns\<close>

text \<open>
  Claim C3. For a path that lies below the base, with any user patterns at all: when a
  default pattern matches the relative path, \<open>should_exclude\<close> answers \<open>True\<close> and has
  not called \<open>match_file\<close>; a call of \<open>match_file\<close> means that no default pattern matched,
  and then the answer is the one \<open>match_file\<close> gives.
\<close>

theorem defaults_before_user_patterns:
  assumes "relative_to p base = Some rel"
  shows "(default_excluded (rel_path_str_of rel d) \<longrightarrow>
            should_exclude p d base sp \<and> match_file_calls p d base sp = []) \<and>
         (match_file_calls p d base sp \<noteq> [] \<longrightarrow> \<not> default_excluded (rel_path_str_of rel d)) \<and>
         (\<not> default_excluded (rel_path_str_of rel d) \<longrightarrow>
            should_exclude p d base (Some m) = m (rel_path_str_of rel d) \<and>
            match_file_calls p d base (Some m) = [rel_path_str_of rel d])"
  using assms by (simp add: should_exclude_def match_file_calls_def Let_def)

theorem defaults_before_user_patterns_witness:
  "relative_to (Path ''/proj/node_modules/pkg/index.js'') (Path ''/proj'')
     = Some [''node_modules'', ''pkg'', ''index.js''] \<and>
   default_excluded (rel_path_str_of [''node_modules'', ''pkg'', ''index.js''] False) \<and>
   should_exclude (Path ''/proj/node_modules/pkg/index.js'') False (Path ''/proj'')
     (Some (\<lambda>_. False)) \<and>
   \<not> default_excluded (rel_path_str_of [''src'', ''app.py''] False) \<and>
   \<not> should_exclude (Path ''/proj/src/app.py'') False (Path ''/proj'') (Some (\<lambda>_. False))"
proof -
  have r1: "relative_to (Path ''/proj/node_modules/pkg/index.js'') (Path ''/proj'')
              = Some [''node_modules'', ''pkg'', ''index.js'']"
    by code_simp
  have d1: "default_excluded (rel_path_str_of [''node_modules'', ''pkg'', ''index.js''] False)"
    by code_simp
  have r2: "relative_to (Path ''/proj/src/app.py'') (Path ''/proj'') = Some [''src'', ''app.py'']"
    by code_simp
  have d2: "\<not> default_excluded (rel_path_str_of [''src'', ''app.py''] False)"
    by code_simp
  show ?thesis
    using defaults_before_user_patterns [OF r1, of False "Some (\<lambda>_. False)" "\<lambda>_. False"]
      defaults_before_user_patterns [OF r2, of False "Some (\<lambda>_. False)" "\<lambda>_. False"]
      r1 d1 d2
    by simp
qed

text \<open>
  Claim C8. A path that \<open>relative_to\<close> cannot express relative to the base is not
  excluded, by either \<open>should_exclude\<close>, whatever the user patterns are.
\<close>

theorem unrelated_path_not_excluded:
  assumes "relative_to p base = None"
  shows "\<not> should_exclude p d base sp \<and> \<not> should_exclude_main p d base sp"
  using assms by (simp add: should_exclude_def should_exclude_main_def split: option.splits)

theorem unrelated_path_not_excluded_witness:
  "relative_to (Path ''/elsewhere/node_modules/x.pyc'') (Path ''/proj'') = None \<and>
   \<not> should_exclude (Path ''/elsewhere/node_modules/x.pyc'') False (Path ''/proj'')
       (Some (\<lambda>_. True)) \<and>
   \<not> should_exclude_main (Path ''/elsewhere/node_modules/x.pyc'') False (Path ''/proj'')
       (Some (\<lambda>_. True))"
proof -
  have r: "relative_to (Path ''/elsewhere/node_modules/x.pyc'') (Path ''/proj'') = None"
    by code_simp
  show ?thesis
    using unrelated_path_not_excluded [OF r, of False "Some (\<lambda>_. True)"] r by simp
qed

section \<open>Binary files and signature files\<close>

text \<open>
  Claim C6. A path with one of the binary extensions is binary and no file is opened.
  For any other path, a file that can be read is binary exactly when one of its first
  1024 bytes is zero, and a file that cannot be opened is binary.
\<close>

theorem is_binary_file_cases:
  "(has_binary_extension file_path \<longrightarrow> is_binary_file file_path opened = (True, [])) \<and>
   (\<not> has_binary_extension file_path \<longrightarrow>
      (fst (is_binary_file file_path (Some content)) \<longleftrightarrow>
         (\<exists>i < 1024. i < length content \<and> content ! i = 0))) \<and>
   fst (is_binary_file file_path None)"
proof -
  have "(0 \<in> set (take 1024 content)) \<longleftrightarrow> (\<exists>i < 1024. i < length content \<and> content ! i = 0)"
    by (auto simp: in_set_conv_nth)
  then show ?thesis by (auto simp: is_binary_file_def)
qed

theorem is_binary_file_cases_witness:
  "has_binary_extension ''logo.PNG'' \<and> is_binary_file ''logo.PNG'' None = (True, []) \<and>
   \<not> has_binary_extension ''notes.txt'' \<and>
   fst (is_binary_file ''notes.txt'' (Some [104, 0, 105])) \<and>
   \<not> fst (is_binary_file ''notes.txt'' (Some [104, 105]))"
proof -
  have hb1: "has_binary_extension ''logo.PNG''" by code_simp
  have hb2: "\<not> has_binary_extension ''notes.txt''" by code_simp
  show ?thesis
    using is_binary_file_cases [of "''logo.PNG''" None]
      is_binary_file_cases [of "''notes.txt''" None "[104, 0, 105]"]
      is_binary_file_cases [of "''notes.txt''" None "[104, 105]"]
      hb1 hb2
    by (auto simp: nth_Cons' less_Suc_eq)
qed

lemma is_signature_file_py_variant:
  assumes "lower e = ''.py''"
  shows "is_signature_file (p @ e) = (e = ''.py'')"
proof -
  have len: "length e = 3" using length_lower [of e] assms by simp
  have py: "endswith (p @ e) ''.py'' = (e = ''.py'')"
    using endswith_append_same_length [of "''.py''" e p] len by auto
  have low: "lower (p @ e) = lower p @ ''.py''" by (simp add: lower_append assms)
  have n1: "\<not> endswith (lower p @ ''.py'') ''.md''"
    by (simp add: endswith_append_same_length)
  have n2: "\<not> endswith (lower p @ ''.py'') ''.markdown''"
    using endswith_append_longer [of "lower p" "''.py''" "''.markdown''"]
    by (auto simp: endswith_def suffix_to_prefix)
  have n3: "\<not> endswith (lower p @ ''.py'') ''.js''"
    by (simp add: endswith_append_same_length)
  have n4: "\<not> endswith (lower p @ ''.py'') ''.jsx''"
    using endswith_append_longer [of "lower p" "''.py''" "''.jsx''"]
    by (auto simp: endswith_def suffix_to_prefix)
  have n5: "\<not> endswith (lower p @ ''.py'') ''.ts''"
    by (simp add: endswith_append_same_length)
  have n6: "\<not> endswith (lower p @ ''.py'') ''.tsx''"
    using endswith_append_longer [of "lower p" "''.py''" "''.tsx''"]
    by (auto simp: endswith_def suffix_to_prefix)
  have n7: "\<not> endswith (lower p @ ''.py'') ''.sql''"
    using endswith_append_longer [of "lower p" "''.py''" "''.sql''"]
    by (auto simp: endswith_def suffix_to_prefix)
  show ?thesis
    unfolding is_signature_file_def low using py n1 n2 n3 n4 n5 n6 n7 by simp
qed

lemma is_signature_file_ci_variant:
  assumes "lower e \<in> {''.md'', ''.markdown'', ''.js'', ''.jsx'', ''.ts'', ''.tsx'', ''.sql''}"
  shows "is_signature_file (p @ e)"
proof -
  have "endswith (lower (p @ e)) (lower e)"
    by (simp add: lower_append endswith_append_self)
  with assms show ?thesis
    unfolding is_signature_file_def by auto
qed

text \<open>
  Claim C10. Of the endings that \<open>lower\<close> turns into \<open>.py\<close>, only \<open>.py\<close> itself makes a
  path a signature file, so a path that ends in \<open>.PY\<close> is none; every ending that \<open>lower\<close>
  turns into one of the markdown, JS, JSX, TS, TSX or SQL extensions makes a path a
  signature file, so a path that ends in \<open>.MD\<close> is one.
\<close>

theorem signature_extension_case:
  "(lower e = ''.py'' \<longrightarrow> is_signature_file (p @ e) = (e = ''.py'')) \<and>
   (lower e \<in> {''.md'', ''.markdown'', ''.js'', ''.jsx'', ''.ts'', ''.tsx'', ''.sql''} \<longrightarrow>
      is_signature_file (p @ e)) \<and>
   \<not> is_signature_file (p @ ''.PY'') \<and>
   is_signature_file (p @ ''.MD'') \<and> is_signature_file (p @ ''.MARKDOWN'') \<and>
   is_signature_file (p @ ''.JS'') \<and> is_signature_file (p @ ''.JSX'') \<and>
   is_signature_file (p @ ''.TS'') \<and> is_signature_file (p @ ''.TSX'') \<and>
   is_signature_file (p @ ''.SQL'')"
proof -
  have l0: "lower ''.PY'' = ''.py''" by code_simp
  have l1: "lower ''.MD'' = ''.md''" by code_simp
  have l2: "lower ''.MARKDOWN'' = ''.markdown''" by code_simp
  have l3: "lower ''.JS'' = ''.js''" by code_simp
  have l4: "lower ''.JSX'' = ''.jsx''" by code_simp
  have l5: "lower ''.TS'' = ''.ts''" by code_simp
  have l6: "lower ''.TSX'' = ''.tsx''" by code_simp
  have l7: "lower ''.SQL'' = ''.sql''" by code_simp
  have a: "lower e = ''.py'' \<longrightarrow> is_signature_file (p @ e) = (e = ''.py'')"
    using is_signature_file_py_variant by blast
  have b: "lower e \<in> {''.md'', ''.markdown'', ''.js'', ''.jsx'', ''.ts'', ''.tsx'', ''.sql''} \<longrightarrow>
      is_signature_file (p @ e)"
    using is_signature_file_ci_variant by blast
  have c: "\<not> is_signature_file (p @ ''.PY'')"
    using is_signature_file_py_variant [OF l0, of p] by simp
  have d1: "is_signature_file (p @ ''.MD'')"
    by (rule is_signature_file_ci_variant) (simp add: l1)
  have d2: "is_signature_file (p @ ''.MARKDOWN'')"
    by (rule is_signature_file_ci_variant) (simp add: l2)
  have d3: "is_signature_file (p @ ''.JS'')"
    by (rule is_signature_file_ci_variant) (simp add: l3)
  have d4: "is_signature_file (p @ ''.JSX'')"
    by (rule is_signature_file_ci_variant) (simp add: l4)
  have d5: "is_signature_file (p @ ''.TS'')"
    by (rule is_signature_file_ci_variant) (simp add: l5)
  have d6: "is_signature_file (p @ ''.TSX'')"
    by (rule is_signature_file_ci_variant) (simp add: l6)
  have d7: "is_signature_file (p @ ''.SQL'')"
    by (rule is_signature_file_ci_variant) (simp add: l7)
  from a b c d1 d2 d3 d4 d5 d6 d7 show ?thesis by blast
qed

theorem signature_extension_case_witness:
  "lower ''.Py'' = ''.py'' \<and> \<not> is_signature_file (''setup'' @ ''.Py'') \<and>
   lower ''.Md'' \<in> {''.md'', ''.markdown'', ''.js'', ''.jsx'', ''.ts'', ''.tsx'', ''.sql''} \<and>
   is_signature_file (''README'' @ ''.Md'')"
proof -
  have l1: "lower ''.Py'' = ''.py''" by code_simp
  have l2: "lower ''.Md'' = ''.md''" by code_simp
  show ?thesis
    using signature_extension_case [of "''.Py''" "''setup''"]
      signature_extension_case [of "''.Md''" "''README''"]
    by (simp add: l1 l2)
qed

lemma is_signature_file_lower: "is_signature_file f = is_signature_file_with lower f"
  by (simp add: is_signature_file_def is_signature_file_with_def)

section \<open>What a call of the scan gives back\<close>

lemma scan_project_files_Inr:
  assumes "scan_project_files os directory sp g = Inr r"
  shows "\<exists>git_tracked.
           tracked_set os directory = Inr git_tracked \<and>
           raised (walk_root (scan_ctx os directory sp g git_tracked) (fs_root os)) = None \<and>
           r_all_files r =
             sort (all_files (walk_root (scan_ctx os directory sp g git_tracked) (fs_root os))) \<and>
           r_signature_candidates r =
             sort (signature_candidates
                     (walk_root (scan_ctx os directory sp g git_tracked) (fs_root os))) \<and>
           r_git_tracked r = git_tracked"
proof (cases "tracked_set os directory")
  case (Inl e)
  with assms show ?thesis by (simp add: scan_project_files_def)
next
  case (Inr git_tracked)
  let ?st = "walk_root (scan_ctx os directory sp g git_tracked) (fs_root os)"
  from assms Inr have n: "raised ?st = None"
    by (cases "raised ?st") (simp_all add: scan_project_files_def Let_def)
  with assms Inr have r: "r = \<lparr>r_all_files = sort (all_files ?st),
      r_signature_candidates = sort (signature_candidates ?st), r_git_tracked = git_tracked\<rparr>"
    by (simp add: scan_project_files_def Let_def)
  from Inr n r show ?thesis by simp
qed

lemma record_events_lists [simp]:
  "all_files (record_events evs st) = all_files st"
  "signature_candidates (record_events evs st) = signature_candidates st"
  "events (record_events evs st) = events st @ evs"
  "raised (record_events evs st) = raised st"
  by (simp_all add: record_events_def)

lemma check_exclude_lists [simp]:
  "all_files (snd (check_exclude ctx searchable s d st)) = all_files st"
  "signature_candidates (snd (check_exclude ctx searchable s d st)) = signature_candidates st"
  by (simp_all add: check_exclude_def Let_def split: option.splits)

lemma filter_dirs_Cons:
  assumes "check_exclude ctx searchable (os_path_join root d) True st = (ex, st1)"
    and "filter_dirs ctx searchable root ds st1 = (filtered, st2)"
  shows "filter_dirs ctx searchable root (d # ds) st =
           (if raised st1 \<noteq> None then ([], st1)
            else (if ex then filtered else d # filtered, st2))"
  using assms by simp

lemma filter_dirs_lists_both:
  "all_files (snd (filter_dirs ctx searchable root ds st)) = all_files st \<and>
   signature_candidates (snd (filter_dirs ctx searchable root ds st)) = signature_candidates st"
proof (induction ds arbitrary: st)
  case Nil
  show ?case by simp
next
  case (Cons d ds)
  obtain ex st1 where c: "check_exclude ctx searchable (os_path_join root d) True st = (ex, st1)"
    by (cases "check_exclude ctx searchable (os_path_join root d) True st")
  obtain filtered st2 where f: "filter_dirs ctx searchable root ds st1 = (filtered, st2)"
    by (cases "filter_dirs ctx searchable root ds st1")
  have l: "all_files st1 = all_files st" "signature_candidates st1 = signature_candidates st"
    using check_exclude_lists [of ctx searchable "os_path_join root d" True st] c by simp_all
  have l2: "all_files st2 = all_files st1" "signature_candidates st2 = signature_candidates st1"
    using Cons.IH [of st1] f by simp_all
  show ?case
    unfolding filter_dirs_Cons [OF c f] using l l2 by simp
qed

lemma filter_dirs_lists [simp]:
  "all_files (snd (filter_dirs ctx searchable root ds st)) = all_files st"
  "signature_candidates (snd (filter_dirs ctx searchable root ds st)) = signature_candidates st"
  using filter_dirs_lists_both [of ctx searchable root ds st] by simp_all

text \<open>The scan of the small project, run once with tracking required and once without.\<close>

lemma example_scan:
  "scan_project_files example_os ''/proj'' None True = Inr example_result"
  by code_simp

lemma example_scan_untracked:
  "scan_project_files example_os ''/proj'' None False = Inr example_result_untracked"
  by code_simp

section \<open>The candidates among the reported files\<close>

lemma cand_ok_same_lists:
  "all_files st' = all_files st \<Longrightarrow> signature_candidates st' = signature_candidates st \<Longrightarrow>
     cand_ok ctx st' = cand_ok ctx st"
  by (simp add: cand_ok_def)

lemma scan_file_cand_ok:
  "cand_ok ctx st \<Longrightarrow> cand_ok ctx (scan_file ctx searchable root filename opened sz st)"
proof -
  assume st: "cand_ok ctx st"
  obtain ex st1 where c:
    "check_exclude ctx searchable (os_path_join root filename) False st = (ex, st1)"
    by (cases "check_exclude ctx searchable (os_path_join root filename) False st")
  then have "all_files st1 = all_files st" "signature_candidates st1 = signature_candidates st"
    using check_exclude_lists [of ctx searchable "os_path_join root filename" False st]
    by simp_all
  with st have "cand_ok ctx st1" by (simp add: cand_ok_def)
  with st c show ?thesis
    by (auto simp: scan_file_def Let_def cand_ok_def split: prod.splits option.splits)
qed

lemma scan_entry_cand_ok:
  "cand_ok ctx st \<Longrightarrow> cand_ok ctx (scan_entry ctx searchable root e st)"
  by (cases "(ctx, searchable, root, e, st)" rule: scan_entry.cases)
    (auto simp: scan_file_cand_ok)

lemma fold_scan_entry_cand_ok:
  "cand_ok ctx st \<Longrightarrow> cand_ok ctx (fold (scan_entry ctx searchable root) es st)"
  by (induction es arbitrary: st) (auto simp: scan_entry_cand_ok)

lemma walk_cand_ok:
  "cand_ok ctx st \<Longrightarrow> cand_ok ctx (walk ctx root x st)"
  "cand_ok ctx st \<Longrightarrow> cand_ok ctx (walk_dirs ctx root kept es st)"
proof (induction ctx root x st and ctx root kept es st rule: walk_walk_dirs.induct)
  case (3 ctx root searchable es st)
  obtain filtered st1 where f:
    "filter_dirs ctx searchable root (dirnames es) (record_events [ListDir root] st) =
       (filtered, st1)"
    by (cases "filter_dirs ctx searchable root (dirnames es) (record_events [ListDir root] st)")
  then have "all_files st1 = all_files st" "signature_candidates st1 = signature_candidates st"
    using filter_dirs_lists [of ctx searchable root "dirnames es" "record_events [ListDir root] st"]
    by simp_all
  with "3.prems" have "cand_ok ctx st1" by (simp add: cand_ok_def)
  then have "cand_ok ctx (fold (scan_entry ctx searchable root) es st1)"
    by (rule fold_scan_entry_cand_ok)
  with "3.IH" [OF f [symmetric]] f show ?case by simp
qed (auto simp: cand_ok_def)

lemma initial_cand_ok: "cand_ok ctx initial_state"
  by (simp add: cand_ok_def initial_state_def)

lemma walk_root_cand_ok: "cand_ok ctx (walk_root ctx r)"
proof (cases r)
  case None
  then show ?thesis using initial_cand_ok [of ctx] by (simp add: walk_root_def cand_ok_def)
next
  case (Some x)
  then show ?thesis by (simp add: walk_root_def walk_cand_ok(1) [OF initial_cand_ok])
qed

text \<open>
  Claim C5. In the result of a scan, a path is a signature candidate exactly when it is
  among the reported files, it ends in \<open>.py\<close> or its lower-case form ends in one of
  \<open>.md\<close>, \<open>.markdown\<close>, \<open>.js\<close>, \<open>.jsx\<close>, \<open>.ts\<close>, \<open>.tsx\<close> and \<open>.sql\<close>, and either tracking is
  not required or its absolute path is in the tracked set; so the candidates are among
  the reported files; and both lists are sorted.
\<close>

theorem signature_candidates_characterised:
  assumes "scan_project_files os directory sp g = Inr r"
  shows "(f \<in> set (r_signature_candidates r) \<longleftrightarrow>
            f \<in> set (r_all_files r) \<and>
            (endswith f ''.py'' \<or>
             endswith (str_lower os f) ''.md'' \<or> endswith (str_lower os f) ''.markdown'' \<or>
             endswith (str_lower os f) ''.js'' \<or> endswith (str_lower os f) ''.jsx'' \<or>
             endswith (str_lower os f) ''.ts'' \<or> endswith (str_lower os f) ''.tsx'' \<or>
             endswith (str_lower os f) ''.sql'') \<and>
            (\<not> g \<or> abspath os f \<in> r_git_tracked r)) \<and>
         set (r_signature_candidates r) \<subseteq> set (r_all_files r) \<and>
         sorted (r_all_files r) \<and>
         sorted (r_signature_candidates r)"
proof -
  from scan_project_files_Inr [OF assms] obtain git_tracked where
    all: "r_all_files r =
       sort (all_files (walk_root (scan_ctx os directory sp g git_tracked) (fs_root os)))"
    and cand: "r_signature_candidates r =
       sort (signature_candidates (walk_root (scan_ctx os directory sp g git_tracked) (fs_root os)))"
    and tr: "r_git_tracked r = git_tracked"
    by blast
  let ?ctx = "scan_ctx os directory sp g git_tracked"
  let ?st = "walk_root ?ctx (fs_root os)"
  have inv: "cand_ok ?ctx ?st" by (rule walk_root_cand_ok)
  have ctx: "ctx_git_only_signatures ?ctx = g" "ctx_abspath ?ctx = abspath os"
    "ctx_lower ?ctx = str_lower os" "ctx_git_tracked ?ctx = git_tracked"
    by (simp_all add: scan_ctx_def)
  from inv have "set (signature_candidates ?st) =
      {f \<in> set (all_files ?st).
         is_signature_file_with (str_lower os) f \<and> (\<not> g \<or> abspath os f \<in> git_tracked)}"
    unfolding cand_ok_def ctx by auto
  then show ?thesis
    unfolding all cand tr is_signature_file_with_def by auto
qed

theorem signature_candidates_characterised_witness:
  "scan_project_files example_os ''/proj'' None True = Inr example_result \<and>
   ''/proj/package.json'' \<in> set (r_all_files example_result) \<and>
   abspath example_os ''/proj/package.json'' \<in> r_git_tracked example_result \<and>
   ''/proj/package.json'' \<notin> set (r_signature_candidates example_result) \<and>
   ''/proj/src/app.py'' \<in> set (r_signature_candidates example_result) \<and>
   ''/proj/notes.py'' \<in> set (r_all_files example_result) \<and>
   ''/proj/notes.py'' \<notin> set (r_signature_candidates example_result) \<and>
   scan_project_files example_os ''/proj'' None False = Inr example_result_untracked \<and>
   ''/proj/notes.py'' \<in> set (r_signature_candidates example_result_untracked) \<and>
   ''/proj/package.json'' \<notin> set (r_signature_candidates example_result_untracked)"
proof -
  note run = example_scan and run' = example_scan_untracked
  have all: "r_all_files example_result =
      [''/proj/main.py'', ''/proj/notes.py'', ''/proj/package.json'', ''/proj/src/app.py'']"
    and all': "r_all_files example_result_untracked =
      [''/proj/main.py'', ''/proj/notes.py'', ''/proj/package.json'', ''/proj/src/app.py'']"
    and tr: "r_git_tracked example_result =
      {''/proj/main.py'', ''/proj/package.json'', ''/proj/src/app.py''}"
    by (simp_all add: example_result_def example_result_untracked_def)
  have ab: "abspath example_os = (\<lambda>p. p)" and lw: "str_lower example_os = lower"
    by (simp_all add: example_os_def)
  have py: "endswith ''/proj/src/app.py'' ''.py''" "endswith ''/proj/notes.py'' ''.py''"
    by code_simp+
  have json: "\<not> endswith ''/proj/package.json'' ''.py''"
    "\<not> endswith (lower ''/proj/package.json'') ''.md''"
    "\<not> endswith (lower ''/proj/package.json'') ''.markdown''"
    "\<not> endswith (lower ''/proj/package.json'') ''.js''"
    "\<not> endswith (lower ''/proj/package.json'') ''.jsx''"
    "\<not> endswith (lower ''/proj/package.json'') ''.ts''"
    "\<not> endswith (lower ''/proj/package.json'') ''.tsx''"
    "\<not> endswith (lower ''/proj/package.json'') ''.sql''"
    by code_simp+
  note t = signature_candidates_characterised [OF run, THEN conjunct1]
  note t' = signature_candidates_characterised [OF run', THEN conjunct1]
  from t [of "''/proj/package.json''"] have 1:
    "''/proj/package.json'' \<notin> set (r_signature_candidates example_result)"
    unfolding lw using json by blast
  from t [of "''/proj/src/app.py''"] have 2:
    "''/proj/src/app.py'' \<in> set (r_signature_candidates example_result)"
    unfolding ab all tr using py by simp
  from t [of "''/proj/notes.py''"] have 3:
    "''/proj/notes.py'' \<notin> set (r_signature_candidates example_result)"
    unfolding ab all tr by simp
  from t' [of "''/proj/notes.py''"] have 4:
    "''/proj/notes.py'' \<in> set (r_signature_candidates example_result_untracked)"
    unfolding all' using py by simp
  from t' [of "''/proj/package.json''"] have 5:
    "''/proj/package.json'' \<notin> set (r_signature_candidates example_result_untracked)"
    unfolding lw using json by blast
  show ?thesis
    using run run' 1 2 3 4 5 by (simp add: all tr ab)
qed

section \<open>A failing git\<close>

text \<open>
  Claim C7, for the failures that the handler names. When the \<open>git\<close> call raises
  \<open>FileNotFoundError\<close>, because there is no \<open>git\<close>, or \<open>CalledProcessError\<close>, because it
  exits with a status other than zero (as it does outside a repository),
  \<open>get_git_tracked_files\<close> returns the empty set, the tracked set of the scan is empty,
  and the scan and its events are those of a run in which \<open>git\<close> lists no file.
\<close>

theorem git_failure_gives_empty_set:
  assumes "git_run os = Raises FileNotFoundError \<or>
           (\<exists>rc. git_run os = Raises (CalledProcessError rc))"
  shows "get_git_tracked_files os path = Inr {} \<and>
         tracked_set os path = Inr {} \<and>
         scan_project_files os path sp g =
           scan_project_files (os\<lparr>git_run := Stdout []\<rparr>) path sp g \<and>
         scan_events os path sp g = scan_events (os\<lparr>git_run := Stdout []\<rparr>) path sp g"
proof -
  have a: "get_git_tracked_files os path = Inr {}"
    using assms by (auto simp: get_git_tracked_files_def)
  have b: "get_git_tracked_files (os\<lparr>git_run := Stdout []\<rparr>) path = Inr {}"
    by (simp add: get_git_tracked_files_def)
  have c: "tracked_set os path = Inr {}" "tracked_set (os\<lparr>git_run := Stdout []\<rparr>) path = Inr {}"
    using a b by (simp_all add: tracked_set_def)
  have d: "scan_ctx (os\<lparr>git_run := Stdout []\<rparr>) path sp g {} = scan_ctx os path sp g {}"
    by (simp add: scan_ctx_def)
  from a c d show ?thesis
    by (simp add: scan_project_files_def scan_events_def scan_run_def)
qed

theorem git_failure_gives_empty_set_witness:
  "git_run (example_os\<lparr>git_run := Raises (CalledProcessError 128)\<rparr>)
     = Raises (CalledProcessError 128) \<and>
   get_git_tracked_files (example_os\<lparr>git_run := Raises (CalledProcessError 128)\<rparr>) ''/proj''
     = Inr {} \<and>
   tracked_set (example_os\<lparr>git_run := Raises (CalledProcessError 128)\<rparr>) ''/proj'' = Inr {} \<and>
   git_run (example_os\<lparr>git_run := Raises FileNotFoundError\<rparr>) = Raises FileNotFoundError \<and>
   tracked_set (example_os\<lparr>git_run := Raises FileNotFoundError\<rparr>) ''/proj'' = Inr {}"
proof -
  have a: "git_run (example_os\<lparr>git_run := Raises (CalledProcessError 128)\<rparr>)
             = Raises (CalledProcessError 128)"
    by simp
  have b: "git_run (example_os\<lparr>git_run := Raises FileNotFoundError\<rparr>) = Raises FileNotFoundError"
    by simp
  show ?thesis
    using git_failure_gives_empty_set
        [of "example_os\<lparr>git_run := Raises (CalledProcessError 128)\<rparr>" "''/proj''" None True]
      git_failure_gives_empty_set
        [of "example_os\<lparr>git_run := Raises FileNotFoundError\<rparr>" "''/proj''" None True]
      a b
    by simp
qed

text \<open>
  Claim C7, as the specification words it, fails: a \<open>PermissionError\<close> of the \<open>git\<close> call
  is not caught. It leaves \<open>get_git_tracked_files\<close>, and, the directory being a
  repository, it leaves the scan before any directory is listed.
\<close>

theorem git_permission_error_counterexample:
  "is_git_repo (fs_root example_os) \<and>
   \<not> handled PermissionError \<and>
   get_git_tracked_files (example_os\<lparr>git_run := Raises PermissionError\<rparr>) ''/proj''
     = Inl PermissionError \<and>
   scan_project_files (example_os\<lparr>git_run := Raises PermissionError\<rparr>) ''/proj'' None True
     = Inl PermissionError \<and>
   scan_events (example_os\<lparr>git_run := Raises PermissionError\<rparr>) ''/proj'' None True = []"
proof -
  have r: "is_git_repo (fs_root example_os)"
    by (simp add: example_os_def example_tree_def)
  have g: "get_git_tracked_files (example_os\<lparr>git_run := Raises PermissionError\<rparr>) ''/proj''
     = Inl PermissionError"
    by (simp add: get_git_tracked_files_def)
  have t: "tracked_set (example_os\<lparr>git_run := Raises PermissionError\<rparr>) ''/proj''
     = Inl PermissionError"
    using r g by (simp add: tracked_set_def)
  from r g t show ?thesis
    by (simp add: scan_project_files_def scan_events_def scan_run_def initial_state_def)
qed

section \<open>The paths the walk builds\<close>

lemma endswith_slash_iff: "endswith s ''/'' \<longleftrightarrow> s \<noteq> [] \<and> last s = CHR ''/''"
  by (cases s rule: rev_cases) (auto simp: endswith_def suffix_def)

lemma startswith_slash_iff: "startswith s ''/'' \<longleftrightarrow> s \<noteq> [] \<and> hd s = CHR ''/''"
  by (cases s) (auto simp: startswith_def)

lemma valid_name_no_slash:
  "valid_name n \<Longrightarrow> n \<noteq> [] \<and> CHR ''/'' \<notin> set n"
  by (simp add: valid_name_def)

lemma valid_name_not_absolute: "valid_name n \<Longrightarrow> \<not> startswith n ''/''"
  by (cases n) (auto simp: valid_name_def startswith_def)

lemma join_valid_last:
  "qs \<noteq> [] \<Longrightarrow> list_all valid_name qs \<Longrightarrow>
     join ''/'' qs \<noteq> [] \<and> last (join ''/'' qs) \<noteq> CHR ''/''"
proof (induction "''/''" qs rule: join.induct)
  case 1
  then show ?case by simp
next
  case (2 p)
  then have np: "p \<noteq> []" and ns: "CHR ''/'' \<notin> set p" by (simp_all add: valid_name_def)
  have "last p \<in> set p" using np by (rule last_in_set)
  with ns have "last p \<noteq> CHR ''/''" by auto
  with np show ?case by simp
next
  case (3 p q ps)
  then show ?case by auto
qed

lemma descend_snoc: "descend d (qs @ [n]) = os_path_join (descend d qs) n"
  by (simp add: descend_def)

lemma descend_join:
  "qs \<noteq> [] \<Longrightarrow> list_all valid_name qs \<Longrightarrow>
     descend d qs = d @ (if d = [] \<or> endswith d ''/'' then [] else ''/'') @ join ''/'' qs"
proof (induction qs rule: rev_induct)
  case Nil
  then show ?case by simp
next
  case (snoc n qs)
  let ?sep = "if d = [] \<or> endswith d ''/'' then [] else ''/''"
  from snoc.prems have vn: "valid_name n" and vqs: "list_all valid_name qs" by simp_all
  have na: "\<not> startswith n ''/''" using vn by (rule valid_name_not_absolute)
  show ?case
  proof (cases "qs = []")
    case True
    then show ?thesis using na by (simp add: descend_def os_path_join_def)
  next
    case False
    with snoc.IH vqs have eq: "descend d qs = d @ ?sep @ join ''/'' qs" by simp
    from join_valid_last [OF False vqs]
    have j: "join ''/'' qs \<noteq> []" "last (join ''/'' qs) \<noteq> CHR ''/''" by simp_all
    have ne: "descend d qs \<noteq> []" using eq j by simp
    have nl: "\<not> endswith (descend d qs) ''/''"
      unfolding endswith_slash_iff eq using j by simp
    have "descend d (qs @ [n]) = descend d qs @ ''/'' @ n"
      unfolding descend_snoc os_path_join_def using na ne nl by simp
    also have "\<dots> = d @ ?sep @ join ''/'' (qs @ [n])"
      using False by (simp add: eq join_append)
    finally show ?thesis .
  qed
qed

lemma slash_free_split_unique:
  "CHR ''/'' \<notin> set a \<Longrightarrow> CHR ''/'' \<notin> set b \<Longrightarrow>
     a @ CHR ''/'' # u = b @ CHR ''/'' # v \<Longrightarrow> a = b \<and> u = v"
proof (induction a arbitrary: b)
  case Nil
  then show ?case by (cases b) auto
next
  case (Cons x a)
  then show ?case by (cases b) auto
qed

lemma join_prefix_names:
  "ds \<noteq> [] \<Longrightarrow> list_all valid_name ds \<Longrightarrow> list_all valid_name qs \<Longrightarrow>
     prefix (join ''/'' ds @ ''/'') (join ''/'' qs) \<Longrightarrow>
     \<exists>k. 0 < k \<and> k < length qs \<and> ds = take k qs"
proof (induction ds arbitrary: qs)
  case Nil
  then show ?case by simp
next
  case (Cons a ds)
  from Cons.prems have va: "CHR ''/'' \<notin> set a" by (simp add: valid_name_def)
  show ?case
  proof (cases qs)
    case Nil
    with Cons.prems show ?thesis by (cases ds) (auto simp: prefix_def)
  next
    case qs: (Cons b qs')
    from Cons.prems qs have vb: "CHR ''/'' \<notin> set b" by (simp add: valid_name_def)
    have lhs: "join ''/'' (a # ds) @ ''/'' =
                 a @ CHR ''/'' # (if ds = [] then [] else join ''/'' ds @ ''/'')"
      by (cases ds) auto
    show ?thesis
    proof (cases qs')
      case Nil
      with Cons.prems(4) qs lhs
      have "prefix (a @ CHR ''/'' # (if ds = [] then [] else join ''/'' ds @ ''/'')) b"
        by simp
      then have "CHR ''/'' \<in> set b" by (auto simp: prefix_def)
      with vb show ?thesis by simp
    next
      case (Cons c qs'')
      have rhs: "join ''/'' qs = b @ CHR ''/'' # join ''/'' qs'"
        using qs Cons by simp
      from Cons.prems(4) lhs rhs obtain z where
        "b @ CHR ''/'' # join ''/'' qs' =
           a @ CHR ''/'' # ((if ds = [] then [] else join ''/'' ds @ ''/'') @ z)"
        by (auto simp: prefix_def)
      from slash_free_split_unique [OF vb va this]
      have ab: "b = a"
        and rest: "join ''/'' qs' = (if ds = [] then [] else join ''/'' ds @ ''/'') @ z"
        by simp_all
      show ?thesis
      proof (cases "ds = []")
        case True
        have "0 < (1::nat) \<and> 1 < length qs \<and> a # ds = take 1 qs"
          using True qs Cons ab by simp
        then show ?thesis by blast
      next
        case False
        with rest have "prefix (join ''/'' ds @ ''/'') (join ''/'' qs')"
          by (simp add: prefix_def)
        moreover from \<open>list_all valid_name (a # ds)\<close> have "list_all valid_name ds" by simp
        moreover from \<open>list_all valid_name qs\<close> qs have "list_all valid_name qs'" by simp
        ultimately obtain k where "0 < k" "k < length qs'" "ds = take k qs'"
          using Cons.IH [OF False] by blast
        then have "0 < Suc k \<and> Suc k < length qs \<and> a # ds = take (Suc k) qs"
          using qs ab by simp
        then show ?thesis by blast
      qed
    qed
  qed
qed

lemma below_descend:
  assumes ds: "ds \<noteq> []" "list_all valid_name ds" and qs: "list_all valid_name qs"
    and b: "below (descend d ds) (descend d qs)"
  shows "\<exists>k. 0 < k \<and> k < length qs \<and> ds = take k qs"
proof -
  let ?sep = "if d = [] \<or> endswith d ''/'' then [] else ''/''"
  have dd: "descend d ds = d @ ?sep @ join ''/'' ds" using ds by (rule descend_join)
  show ?thesis
  proof (cases "qs = []")
    case True
    with b dd have "prefix ((d @ ?sep @ join ''/'' ds) @ ''/'') d"
      by (simp add: below_def startswith_def descend_def)
    then have "length ((d @ ?sep @ join ''/'' ds) @ ''/'') \<le> length d"
      by (rule prefix_length_le)
    then show ?thesis by simp
  next
    case False
    then have dq: "descend d qs = d @ ?sep @ join ''/'' qs" using qs by (rule descend_join)
    from b have "prefix (join ''/'' ds @ ''/'') (join ''/'' qs)"
      unfolding below_def startswith_def dd dq by simp
    with ds qs show ?thesis by (rule join_prefix_names)
  qed
qed

lemma join_inj:
  "ds \<noteq> [] \<Longrightarrow> qs \<noteq> [] \<Longrightarrow> list_all valid_name ds \<Longrightarrow> list_all valid_name qs \<Longrightarrow>
     join ''/'' ds = join ''/'' qs \<Longrightarrow> ds = qs"
proof (induction ds arbitrary: qs)
  case Nil
  then show ?case by simp
next
  case (Cons a ds)
  then obtain b qs' where qs: "qs = b # qs'" by (cases qs) auto
  from Cons.prems qs have va: "CHR ''/'' \<notin> set a" and vb: "CHR ''/'' \<notin> set b"
    by (simp_all add: valid_name_def)
  have ja: "join ''/'' (a # ds) = (if ds = [] then a else a @ CHR ''/'' # join ''/'' ds)"
    by (cases ds) auto
  have jb: "join ''/'' (b # qs') = (if qs' = [] then b else b @ CHR ''/'' # join ''/'' qs')"
    by (cases qs') auto
  from Cons.prems(5) have eq:
    "(if ds = [] then a else a @ CHR ''/'' # join ''/'' ds) =
     (if qs' = [] then b else b @ CHR ''/'' # join ''/'' qs')"
    unfolding qs ja jb .
  show ?case
  proof (cases "ds = []")
    case True
    show ?thesis
    proof (cases "qs' = []")
      case True
      with \<open>ds = []\<close> eq qs show ?thesis by simp
    next
      case False
      with \<open>ds = []\<close> eq have "a = b @ CHR ''/'' # join ''/'' qs'" by simp
      then have "CHR ''/'' \<in> set a" by simp
      with va show ?thesis by simp
    qed
  next
    case False
    show ?thesis
    proof (cases "qs' = []")
      case True
      with False eq have "b = a @ CHR ''/'' # join ''/'' ds" by simp
      then have "CHR ''/'' \<in> set b" by simp
      with vb show ?thesis by simp
    next
      case nq: False
      with False eq have "a @ CHR ''/'' # join ''/'' ds = b @ CHR ''/'' # join ''/'' qs'" by simp
      from slash_free_split_unique [OF va vb this]
      have ab: "a = b" and j: "join ''/'' ds = join ''/'' qs'" by simp_all
      from Cons.prems qs have "list_all valid_name ds" "list_all valid_name qs'" by simp_all
      with Cons.IH [OF False nq] j have "ds = qs'" by simp
      with ab qs show ?thesis by simp
    qed
  qed
qed

lemma descend_inj:
  assumes "list_all valid_name ds" "list_all valid_name qs" "descend d ds = descend d qs"
  shows "ds = qs"
proof -
  let ?sep = "if d = [] \<or> endswith d ''/'' then [] else ''/''"
  have ne: "xs \<noteq> [] \<Longrightarrow> list_all valid_name xs \<Longrightarrow> descend d xs \<noteq> d" for xs
    using descend_join [of xs d] join_valid_last [of xs] by auto
  show ?thesis
  proof (cases "ds = []")
    case True
    then show ?thesis using assms ne [of qs] by (cases "qs = []") (auto simp: descend_def)
  next
    case False
    show ?thesis
    proof (cases "qs = []")
      case True
      then show ?thesis using assms ne [of ds] False by (auto simp: descend_def)
    next
      case nq: False
      from assms(3) descend_join [OF False assms(1), of d] descend_join [OF nq assms(2), of d]
      have "join ''/'' ds = join ''/'' qs" by simp
      with False nq assms(1,2) show ?thesis by (rule join_inj)
    qed
  qed
qed

lemma keep_dir_iff: "keep_dir ctx root d = (\<not> excluded_dir ctx (os_path_join root d))"
  by (simp add: keep_dir_def excluded_dir_def)

lemma walked_reached: "walked ctx qs \<Longrightarrow> reached ctx qs"
  by (simp add: walked_def reached_def)

lemma reached_snoc:
  assumes "walked ctx rs" "valid_name n"
  shows "reached ctx (rs @ [n])"
  using assms by (auto simp: walked_def reached_def)

lemma walked_snoc:
  assumes w: "walked ctx rs" and n: "valid_name n"
    and k: "\<not> excluded_dir ctx (descend (ctx_directory ctx) (rs @ [n]))"
  shows "walked ctx (rs @ [n])"
proof -
  have "\<not> excluded_dir ctx (descend (ctx_directory ctx) (take k (rs @ [n])))"
    if "0 < k" "k \<le> length (rs @ [n])" for k
  proof (cases "k \<le> length rs")
    case True
    with w that show ?thesis by (simp add: walked_def)
  next
    case False
    with that have "take k (rs @ [n]) = rs @ [n]" by simp
    with k show ?thesis by simp
  qed
  with w n show ?thesis by (simp add: walked_def)
qed

lemma path_ok_entry:
  assumes "walked ctx rs" "valid_name n" "root = descend (ctx_directory ctx) rs"
  shows "path_ok ctx (os_path_join root n)"
  unfolding path_ok_def
  using reached_snoc [OF assms(1,2)] assms(3) descend_snoc [of "ctx_directory ctx" rs n]
  by metis

lemma touches_ok_record_events:
  "touches_ok ctx st \<Longrightarrow> list_all (event_ok ctx) evs \<Longrightarrow> touches_ok ctx (record_events evs st)"
  by (simp add: touches_ok_def)

lemma touches_ok_same:
  "all_files st' = all_files st \<Longrightarrow> signature_candidates st' = signature_candidates st \<Longrightarrow>
     events st' = events st \<Longrightarrow> touches_ok ctx st' = touches_ok ctx st"
  by (simp add: touches_ok_def)

lemma check_exclude_touches_ok:
  assumes "touches_ok ctx st" "path_ok ctx s"
  shows "touches_ok ctx (snd (check_exclude ctx searchable s d st))"
  using assms by (simp add: check_exclude_def Let_def touches_ok_def split: option.splits)

lemma check_exclude_answer:
  "raised (snd (check_exclude ctx searchable s d st)) = None \<Longrightarrow>
     fst (check_exclude ctx searchable s d st) =
       should_exclude (Path s) d (Path (ctx_directory ctx)) (ctx_spec ctx)"
  by (simp add: check_exclude_def Let_def split: option.splits if_splits)

lemma is_binary_file_events_ok:
  "path_ok ctx s \<Longrightarrow> list_all (event_ok ctx) (snd (is_binary_file s opened))"
  by (simp add: is_binary_file_def split: option.splits)

lemma scan_file_touches_ok:
  assumes st: "touches_ok ctx st" and p: "path_ok ctx (os_path_join root filename)"
  shows "touches_ok ctx (scan_file ctx searchable root filename opened sz st)"
proof -
  let ?f = "os_path_join root filename"
  obtain ex st1 where c: "check_exclude ctx searchable ?f False st = (ex, st1)"
    by (cases "check_exclude ctx searchable ?f False st")
  have s1: "touches_ok ctx st1"
    using check_exclude_touches_ok [OF st p, of searchable False] c by simp
  have e2: "list_all (event_ok ctx) (snd (is_binary_file ?f opened))"
    using p by (rule is_binary_file_events_ok)
  show ?thesis
    using st s1 p e2 c
    by (auto simp: scan_file_def Let_def touches_ok_def split: prod.splits option.splits)
qed

lemma fold_scan_entry_touches_ok:
  assumes "walked ctx rs" "root = descend (ctx_directory ctx) rs"
  shows "valid_entries es \<Longrightarrow> touches_ok ctx st \<Longrightarrow>
         touches_ok ctx (fold (scan_entry ctx searchable root) es st)"
proof (induction es arbitrary: st)
  case Nil
  then show ?case by simp
next
  case (Cons e es)
  obtain n x where e: "e = (n, x)" by (cases e)
  from Cons.prems e have vn: "valid_name n" and ves: "valid_entries es" by simp_all
  have "touches_ok ctx (scan_entry ctx searchable root e st)"
  proof (cases x)
    case (File opened sz)
    with e show ?thesis
      using scan_file_touches_ok [OF Cons.prems(2) path_ok_entry [OF assms(1) vn assms(2)]]
      by simp
  next
    case (Dir l s sub)
    with e Cons.prems show ?thesis by simp
  qed
  with Cons.IH [OF ves] show ?case by simp
qed

text \<open>The loop over \<open>dirnames\<close> keeps only names that pass the test.\<close>

lemma filter_dirs_touches_ok:
  assumes "walked ctx rs" "root = descend (ctx_directory ctx) rs"
  shows "list_all valid_name ds \<Longrightarrow> touches_ok ctx st \<Longrightarrow>
         touches_ok ctx (snd (filter_dirs ctx searchable root ds st)) \<and>
         list_all (keep_dir ctx root) (fst (filter_dirs ctx searchable root ds st))"
proof (induction ds arbitrary: st)
  case Nil
  then show ?case by simp
next
  case (Cons d ds)
  from Cons.prems have vd: "valid_name d" and vds: "list_all valid_name ds" by simp_all
  obtain ex st1 where c: "check_exclude ctx searchable (os_path_join root d) True st = (ex, st1)"
    by (cases "check_exclude ctx searchable (os_path_join root d) True st")
  obtain filtered st2 where f: "filter_dirs ctx searchable root ds st1 = (filtered, st2)"
    by (cases "filter_dirs ctx searchable root ds st1")
  have s1: "touches_ok ctx st1"
    using check_exclude_touches_ok
      [OF Cons.prems(2) path_ok_entry [OF assms(1) vd assms(2)], of searchable True] c
    by simp
  from Cons.IH [OF vds s1] f have s2: "touches_ok ctx st2"
    and k: "list_all (keep_dir ctx root) filtered"
    by simp_all
  show ?case
  proof (cases "raised st1 = None")
    case False
    then show ?thesis unfolding filter_dirs_Cons [OF c f] using s1 by simp
  next
    case True
    with check_exclude_answer [of ctx searchable "os_path_join root d" True st] c
    have "ex = (\<not> keep_dir ctx root d)" by (simp add: keep_dir_def)
    with True s2 k show ?thesis unfolding filter_dirs_Cons [OF c f] by simp
  qed
qed

lemma valid_entries_dirnames: "valid_entries es \<Longrightarrow> list_all valid_name (dirnames es)"
proof (induction es)
  case Nil
  then show ?case by (simp add: dirnames_def)
next
  case (Cons e es)
  obtain n x where "e = (n, x)" by (cases e)
  with Cons show ?case by (simp add: dirnames_def)
qed

lemma valid_entries_mem: "valid_entries es \<Longrightarrow> (n, x) \<in> set es \<Longrightarrow> valid_name n \<and> valid_names x"
proof (induction es)
  case Nil
  then show ?case by simp
next
  case (Cons e es)
  obtain m y where "e = (m, y)" by (cases e)
  with Cons show ?case by auto
qed

lemma walk_touches_ok:
  "root = descend (ctx_directory ctx) rs \<Longrightarrow> walked ctx rs \<Longrightarrow> valid_names x \<Longrightarrow>
     touches_ok ctx st \<Longrightarrow> touches_ok ctx (walk ctx root x st)"
  "root = descend (ctx_directory ctx) rs \<Longrightarrow> walked ctx rs \<Longrightarrow> valid_entries es \<Longrightarrow>
     list_all (keep_dir ctx root) kept \<Longrightarrow>
     touches_ok ctx st \<Longrightarrow> touches_ok ctx (walk_dirs ctx root kept es st)"
proof (induction ctx root x st and ctx root kept es st arbitrary: rs and rs
       rule: walk_walk_dirs.induct)
  case (1 ctx root uu uv st)
  then have "event_ok ctx (ListDir root)" by auto
  with 1 show ?case by (simp add: touches_ok_record_events)
next
  case (2 ctx root searchable es st)
  then have "event_ok ctx (ListDir root)" by auto
  with 2 show ?case by (simp add: touches_ok_record_events)
next
  case (3 ctx root searchable es st)
  from "3.prems" have ves: "valid_entries es" by simp
  have l: "event_ok ctx (ListDir root)" using "3.prems" by auto
  let ?st0 = "record_events [ListDir root] st"
  obtain filtered st1 where f:
    "filter_dirs ctx searchable root (dirnames es) ?st0 = (filtered, st1)"
    by (cases "filter_dirs ctx searchable root (dirnames es) ?st0")
  let ?st2 = "fold (scan_entry ctx searchable root) es st1"
  have s0: "touches_ok ctx ?st0"
    using "3.prems"(4) l by (simp add: touches_ok_record_events)
  from filter_dirs_touches_ok [OF "3.prems"(2,1) valid_entries_dirnames [OF ves] s0, of searchable] f
  have s1: "touches_ok ctx st1" and k: "list_all (keep_dir ctx root) filtered"
    by simp_all
  have s2: "touches_ok ctx ?st2"
    using fold_scan_entry_touches_ok [OF "3.prems"(2,1) ves s1] .
  show ?case
    using "3.IH" [OF f [symmetric] "3.prems"(1,2) ves k s2] f by simp
next
  case (4 ctx root kept st)
  then show ?case by simp
next
  case (5 ctx root kept d x es st)
  from "5.prems" have vd: "valid_name d" and vx: "valid_names x" and ves: "valid_entries es"
    by simp_all
  show ?case
  proof (cases "raised st = None \<and> is_dir x \<and> d \<in> set kept")
    case True
    with "5.prems"(4) have "keep_dir ctx root d" by (auto simp: list_all_iff)
    then have ne: "\<not> excluded_dir ctx (descend (ctx_directory ctx) (rs @ [d]))"
      using "5.prems"(1) by (simp add: keep_dir_iff descend_snoc)
    have w: "walked ctx (rs @ [d])" using "5.prems"(2) vd ne by (rule walked_snoc)
    have r: "os_path_join root d = descend (ctx_directory ctx) (rs @ [d])"
      using "5.prems"(1) by (simp add: descend_snoc)
    have "touches_ok ctx (walk ctx (os_path_join root d) x st)"
      using "5.IH"(1) [OF True r w vx "5.prems"(5)] .
    from "5.IH"(2) [OF True "5.prems"(1,2) ves "5.prems"(4) this] True
    show ?thesis by simp
  next
    case False
    have "walk_dirs ctx root kept ((d, x) # es) st = walk_dirs ctx root kept es st"
      using False by auto
    with "5.IH"(3) [OF False "5.prems"(1,2) ves "5.prems"(4,5)]
    show ?thesis by simp
  qed
qed

lemma initial_touches_ok: "touches_ok ctx initial_state"
  by (simp add: touches_ok_def initial_state_def)

lemma walked_Nil: "walked ctx []"
  by (simp add: walked_def)

lemma walk_root_touches_ok:
  assumes "case r of None \<Rightarrow> True | Some x \<Rightarrow> valid_names x"
  shows "touches_ok ctx (walk_root ctx r)"
proof (cases r)
  case None
  have "event_ok ctx (ListDir (ctx_directory ctx))"
    using walked_Nil [of ctx] by (auto simp: descend_def intro: exI [of _ "[]"])
  with None show ?thesis
    by (simp add: walk_root_def touches_ok_record_events initial_touches_ok)
next
  case (Some x)
  with assms have "valid_names x" by simp
  from walk_touches_ok(1) [OF _ walked_Nil this initial_touches_ok, of "ctx_directory ctx"]
  show ?thesis using Some by (simp add: walk_root_def descend_def)
qed

lemma path_ok_not_below:
  assumes ok: "path_ok ctx s"
    and ds: "ds \<noteq> []" "list_all valid_name ds"
    and ex: "excluded_dir ctx (descend (ctx_directory ctx) ds)"
  shows "\<not> below (descend (ctx_directory ctx) ds) s"
proof
  assume b: "below (descend (ctx_directory ctx) ds) s"
  from ok obtain qs where s: "s = descend (ctx_directory ctx) qs" and r: "reached ctx qs"
    by (auto simp: path_ok_def)
  from r have vq: "list_all valid_name qs" by (simp add: reached_def)
  from below_descend [OF ds vq b [unfolded s]]
  obtain k where "0 < k" "k < length qs" "ds = take k qs" by blast
  with r have "\<not> excluded_dir ctx (descend (ctx_directory ctx) ds)" by (simp add: reached_def)
  with ex show False by simp
qed

lemma event_ok_not_below:
  assumes ok: "event_ok ctx ev"
    and ds: "ds \<noteq> []" "list_all valid_name ds"
    and ex: "excluded_dir ctx (descend (ctx_directory ctx) ds)"
  shows "\<not> below (descend (ctx_directory ctx) ds) (event_path ev) \<and>
         ev \<noteq> ListDir (descend (ctx_directory ctx) ds)"
proof (cases ev)
  case (ListDir s)
  with ok obtain qs where s: "s = descend (ctx_directory ctx) qs" and w: "walked ctx qs"
    by auto
  then have "path_ok ctx s" by (auto simp: path_ok_def dest: walked_reached)
  from path_ok_not_below [OF this ds ex] have nb: "\<not> below (descend (ctx_directory ctx) ds) s" .
  have "s \<noteq> descend (ctx_directory ctx) ds"
  proof
    assume "s = descend (ctx_directory ctx) ds"
    with s have "descend (ctx_directory ctx) ds = descend (ctx_directory ctx) qs" by simp
    from descend_inj [OF ds(2) _ this] w have "ds = qs" by (simp add: walked_def)
    with w ds(1) have "\<not> excluded_dir ctx (descend (ctx_directory ctx) (take (length qs) qs))"
      unfolding walked_def by blast
    with ex \<open>ds = qs\<close> show False by simp
  qed
  with nb ListDir show ?thesis by simp
next
  case (IsDir s)
  with ok path_ok_not_below [OF _ ds ex, of s] show ?thesis by simp
next
  case (OpenRead s)
  with ok path_ok_not_below [OF _ ds ex, of s] show ?thesis by simp
next
  case (Stat s)
  with ok path_ok_not_below [OF _ ds ex, of s] show ?thesis by simp
next
  case (Warning s)
  with ok path_ok_not_below [OF _ ds ex, of s] show ?thesis by simp
qed

text \<open>
  Claim C1. Take a tree with well-formed names and a directory below the scanned one,
  named by the list of names that leads to it, which \<open>should_exclude\<close> excludes. Then, in
  what the scan returns, no reported file and no signature candidate lies below that
  directory; and, whether the scan returns or is left by an exception, neither of the
  two lists it has built holds a path below that directory, no event of it touches a
  path below that directory, and the directory itself is never listed.
\<close>

theorem excluded_directory_is_pruned:
  assumes root: "fs_root os = Some root" "valid_names root"
    and ds: "ds \<noteq> []" "list_all valid_name ds"
    and ex: "should_exclude (Path (descend directory ds)) True (Path directory) sp"
  shows "(\<forall>r. scan_project_files os directory sp g = Inr r \<longrightarrow>
            (\<forall>f \<in> set (r_all_files r). \<not> below (descend directory ds) f) \<and>
            (\<forall>f \<in> set (r_signature_candidates r). \<not> below (descend directory ds) f)) \<and>
         (\<forall>f \<in> set (all_files (scan_run os directory sp g)).
            \<not> below (descend directory ds) f) \<and>
         (\<forall>f \<in> set (signature_candidates (scan_run os directory sp g)).
            \<not> below (descend directory ds) f) \<and>
         (\<forall>ev \<in> set (scan_events os directory sp g).
            \<not> below (descend directory ds) (event_path ev) \<and>
            ev \<noteq> ListDir (descend directory ds))"
proof -
  have inv: "touches_ok (scan_ctx os directory sp g t) (walk_root (scan_ctx os directory sp g t) (fs_root os))"
    for t
    by (rule walk_root_touches_ok) (simp add: root)
  have dir: "ctx_directory (scan_ctx os directory sp g t) = directory" for t
    by (simp add: scan_ctx_def)
  have ex': "excluded_dir (scan_ctx os directory sp g t)
               (descend (ctx_directory (scan_ctx os directory sp g t)) ds)" for t
    using ex by (simp add: excluded_dir_def scan_ctx_def)
  have 1: "(\<forall>f \<in> set (r_all_files r). \<not> below (descend directory ds) f) \<and>
           (\<forall>f \<in> set (r_signature_candidates r). \<not> below (descend directory ds) f)"
    if "scan_project_files os directory sp g = Inr r" for r
  proof -
    from scan_project_files_Inr [OF that] obtain t where
      all: "r_all_files r = sort (all_files (walk_root (scan_ctx os directory sp g t) (fs_root os)))"
      and cand: "r_signature_candidates r =
        sort (signature_candidates (walk_root (scan_ctx os directory sp g t) (fs_root os)))"
      by blast
    let ?ctx = "scan_ctx os directory sp g t"
    let ?st = "walk_root ?ctx (fs_root os)"
    from inv [of t] have a: "\<forall>f \<in> set (all_files ?st). path_ok ?ctx f"
      and c: "\<forall>f \<in> set (signature_candidates ?st). path_ok ?ctx f"
      by (simp_all add: touches_ok_def list_all_iff)
    show ?thesis
      unfolding all cand using a c path_ok_not_below [OF _ ds ex' [of t]] by (auto simp: dir)
  qed
  have 2: "(\<forall>f \<in> set (all_files (scan_run os directory sp g)).
              \<not> below (descend directory ds) f) \<and>
           (\<forall>f \<in> set (signature_candidates (scan_run os directory sp g)).
              \<not> below (descend directory ds) f)"
  proof (cases "tracked_set os directory")
    case (Inl e)
    then show ?thesis by (simp add: scan_run_def initial_state_def)
  next
    case (Inr t)
    let ?ctx = "scan_ctx os directory sp g t"
    let ?st = "walk_root ?ctx (fs_root os)"
    from inv [of t] have a: "\<forall>f \<in> set (all_files ?st). path_ok ?ctx f"
      and c: "\<forall>f \<in> set (signature_candidates ?st). path_ok ?ctx f"
      by (simp_all add: touches_ok_def list_all_iff)
    have "scan_run os directory sp g = ?st"
      using Inr by (simp add: scan_run_def)
    then show ?thesis
      using a c path_ok_not_below [OF _ ds ex' [of t]] by (auto simp: dir)
  qed
  have 3: "\<forall>ev \<in> set (scan_events os directory sp g).
            \<not> below (descend directory ds) (event_path ev) \<and>
            ev \<noteq> ListDir (descend directory ds)"
  proof (cases "tracked_set os directory")
    case (Inl e)
    then show ?thesis by (simp add: scan_events_def scan_run_def initial_state_def)
  next
    case (Inr t)
    let ?ctx = "scan_ctx os directory sp g t"
    let ?st = "walk_root ?ctx (fs_root os)"
    from inv [of t] have e: "\<forall>ev \<in> set (events ?st). event_ok ?ctx ev"
      by (simp add: touches_ok_def list_all_iff)
    have "scan_events os directory sp g = events ?st"
      using Inr by (simp add: scan_events_def scan_run_def)
    then show ?thesis
      using e event_ok_not_below [OF _ ds ex' [of t]] unfolding dir by simp
  qed
  from 1 2 3 show ?thesis by blast
qed

theorem excluded_directory_is_pruned_witness:
  "fs_root example_os = Some example_tree \<and> valid_names example_tree \<and>
   should_exclude (Path (descend ''/proj'' [''build''])) True (Path ''/proj'') None \<and>
   scan_project_files example_os ''/proj'' None True = Inr example_result \<and>
   ''/proj/build/out.js'' \<notin> set (r_all_files example_result) \<and>
   OpenRead ''/proj/build/out.js'' \<notin> set (scan_events example_os ''/proj'' None True) \<and>
   ListDir ''/proj/build'' \<notin> set (scan_events example_os ''/proj'' None True)"
proof -
  have r: "fs_root example_os = Some example_tree" by (simp add: example_os_def)
  have v: "valid_names example_tree" by (simp add: example_tree_def valid_name_def)
  have n: "[''build''] \<noteq> []" "list_all valid_name [''build'']" by (simp_all add: valid_name_def)
  have d: "descend ''/proj'' [''build''] = ''/proj/build''" by code_simp
  have e: "should_exclude (Path (descend ''/proj'' [''build''])) True (Path ''/proj'') None"
    by code_simp
  have b: "below ''/proj/build'' ''/proj/build/out.js''" by code_simp
  note run = example_scan
  from excluded_directory_is_pruned [OF r v n e, of True]
  have 1: "\<forall>r. scan_project_files example_os ''/proj'' None True = Inr r \<longrightarrow>
             (\<forall>f \<in> set (r_all_files r). \<not> below ''/proj/build'' f)"
    and 3: "\<forall>ev \<in> set (scan_events example_os ''/proj'' None True).
             \<not> below ''/proj/build'' (event_path ev) \<and> ev \<noteq> ListDir ''/proj/build''"
    unfolding d by blast+
  from 1 run b have x: "''/proj/build/out.js'' \<notin> set (r_all_files example_result)"
    by blast
  from 3 b have y: "OpenRead ''/proj/build/out.js'' \<notin> set (scan_events example_os ''/proj'' None True)"
    by force
  from 3 have z: "ListDir ''/proj/build'' \<notin> set (scan_events example_os ''/proj'' None True)"
    by blast
  from r v e run x y z show ?thesis by blast
qed

section \<open>What the scan reports, exactly\<close>

text \<open>An exception ends the loops: what comes after it leaves the state as it is.\<close>

lemma check_exclude_raised:
  "raised st \<noteq> None \<Longrightarrow> raised (snd (check_exclude ctx searchable s d st)) \<noteq> None"
  by (simp add: check_exclude_def Let_def split: option.splits)





























text \<open>
  What the claim passes over: in a directory that can be listed and not searched, the
  first test of an entry raises \<open>PermissionError\<close>, and the exception leaves the scan.
\<close>

lemma scan_unsearchable_directory_raises:
  "scan_project_files unsearchable_os ''/proj'' None True = Inl PermissionError \<and>
   scan_events unsearchable_os ''/proj'' None True = [ListDir ''/proj'', IsDir ''/proj/a.py'']"
  by code_simp

section \<open>The lines of the tree\<close>

















text \<open>
  What the claim passes over: in a directory that can be listed and not searched, the
  children are not listed. Without user patterns the sort key raises \<open>PermissionError\<close>;
  with user patterns the same exception is caught around the loop that collects the
  items, and the root line is all that is returned.
\<close>

lemma tree_unsearchable_directory:
  "generate_tree lower [''/'', ''proj''] (Some (Dir True False tree_example)) None [] =
     Inl PermissionError \<and>
   generate_tree lower [''/'', ''proj''] (Some (Dir True False tree_example)) example_spec [] =
     Inr [''/proj'']"
  by code_simp

end
